theory Spec2Isabelle
  imports
    Main
    "HOL-Library.Word"
    "HOL-Library.AList"
    "HOL-Library.Multiset"
    "HOL-Library.List_Lexorder"
    "HOL-Library.Product_Lexorder"
begin

section \<open>Data model of the stake manager\<close>

text \<open>
  The embedding follows \<^verbatim>\<open>consensus/polybft/state_store_stake.go\<close>.
  \<^item> \<^verbatim>\<open>types.Address\<close> is a byte array; it is a list of bytes here, compared with
    \<^verbatim>\<open>bytes.Compare\<close>.
  \<^item> \<^verbatim>\<open>*big.Int\<close> is \<open>int\<close> (unbounded), \<^verbatim>\<open>uint64\<close> is \<open>64 word\<close>, Go's \<^verbatim>\<open>int\<close> is the
    signed reading of a 64-bit word.
  \<^item> \<^verbatim>\<open>*bls.PublicKey\<close> may be nil: \<open>PublicKey option\<close>.
  \<^item> The Go map \<^verbatim>\<open>validatorStakeMap\<close> is an association list: the order of the list is
    the order in which one \<^verbatim>\<open>range\<close> loop happens to visit the map. Go does not fix that
    order, so properties of the code are stated for every order.
  \<^item> errors and runtime panics are values of type \<open>error\<close>; a fallible function
    returns \<open>error + 'a\<close>.
\<close>

type_synonym byte = "8 word"
type_synonym uint64 = "64 word"
type_synonym address = "byte list"
type_synonym PublicKey = "byte list"

record ValidatorMetadata =
  Address :: address
  BlsKey :: "PublicKey option"
  VotingPower :: int
  IsActive :: bool

type_synonym AccountSet = "ValidatorMetadata list"

type_synonym validatorStakeMap = "(address \<times> ValidatorMetadata) list"

record validatorSetState =
  BlockNumber :: uint64
  EpochID :: uint64
  UpdatedAtBlockNumber :: uint64
  Validators :: validatorStakeMap

text \<open>The bucket of the bolt database that holds the full validator set: empty or one record.\<close>

type_synonym StakeStore = "validatorSetState option"

datatype error =
  errNoFullValidatorSet
  | CollaboratorError string
  | FailedToGetFullValidatorsSet uint64 error
  | CouldNotGetTransferEvents error
  | CouldNotRetrieveValidatorData address error
  | PanicSliceBounds
  | PanicNilDereference

text \<open>
  \<^verbatim>\<open>contractsapi.TransferEvent\<close>. The methods \<^verbatim>\<open>IsStake\<close> and \<^verbatim>\<open>IsUnstake\<close> are defined
  outside the sources at hand; what they return for an event is carried by the event
  itself, so nothing is assumed about how an event is classified.
\<close>

record TransferEvent =
  From :: address
  To :: address
  Value :: int
  IsStake :: bool
  IsUnstake :: bool

typedecl Receipt

record FullBlock =
  Number :: uint64
  Receipts :: "Receipt list"

record PostBlockRequest =
  FullBlock :: FullBlock
  Epoch :: uint64
  IsEpochEndingBlock :: bool

record PostEpochRequest =
  NewEpochID :: uint64
  ValidatorSet :: AccountSet

text \<open>
  Modelled from the spec: \<^verbatim>\<open>bitmap.Bitmap\<close> is not among the sources. The spec calls it
  "a bit per index of the previous ordered active set, set when that slot's validator is
  removed": a list of bits that \<open>Bitmap_Set\<close> extends as far as needed.
\<close>

type_synonym Bitmap = "bool list"

definition Bitmap_Set :: "Bitmap \<Rightarrow> nat \<Rightarrow> Bitmap" where
  "Bitmap_Set b idx = (b @ replicate (Suc idx - length b) False)[idx := True]"

definition Bitmap_IsSet :: "Bitmap \<Rightarrow> nat \<Rightarrow> bool" where
  "Bitmap_IsSet b idx = (idx < length b \<and> b ! idx)"

record ValidatorSetDelta =
  Added :: AccountSet
  Updated :: AccountSet
  Removed :: Bitmap

text \<open>What the stake manager does to its collaborators while resolving keys.\<close>

datatype effect =
  GetBlsKeyCall address
  | WarnCouldNotGetInfo address

section \<open>The stake store\<close>

definition getFullValidatorSet :: "StakeStore \<Rightarrow> error + validatorSetState" where
  "getFullValidatorSet s =
     (case s of None \<Rightarrow> Inl errNoFullValidatorSet | Some fullValidatorSet \<Rightarrow> Inr fullValidatorSet)"

definition insertFullValidatorSet :: "validatorSetState \<Rightarrow> StakeStore \<Rightarrow> error + StakeStore" where
  "insertFullValidatorSet fullValidatorSet s = Inr (Some fullValidatorSet)"

section \<open>The validator stake map\<close>

definition bigZero :: int where
  "bigZero = 0"

text \<open>\<^verbatim>\<open>(*big.Int).Cmp\<close> and \<^verbatim>\<open>bytes.Compare\<close> of the Go library.\<close>

definition big_Cmp :: "int \<Rightarrow> int \<Rightarrow> int" where
  "big_Cmp x y = (if x < y then - 1 else if x = y then 0 else 1)"

fun bytes_Compare :: "byte list \<Rightarrow> byte list \<Rightarrow> int" where
  "bytes_Compare [] [] = 0"
| "bytes_Compare [] (y # ys) = - 1"
| "bytes_Compare (x # xs) [] = 1"
| "bytes_Compare (x # xs) (y # ys) =
     (if x < y then - 1 else if y < x then 1 else bytes_Compare xs ys)"

definition newValidatorStakeMap :: "AccountSet \<Rightarrow> validatorStakeMap" where
  "newValidatorStakeMap validatorSet =
     fold (\<lambda>v stakeMap. AList.update (Address v) v stakeMap) validatorSet []"

definition addStake :: "address \<Rightarrow> int \<Rightarrow> validatorStakeMap \<Rightarrow> validatorStakeMap" where
  "addStake address amount sc =
     (case map_of sc address of
        Some metadata \<Rightarrow>
          AList.update address
            (metadata\<lparr>VotingPower := VotingPower metadata + amount,
                      IsActive := (big_Cmp (VotingPower metadata + amount) bigZero > 0)\<rparr>) sc
      | None \<Rightarrow>
          AList.update address
            \<lparr>Address = address, BlsKey = None, VotingPower = amount,
             IsActive = (big_Cmp amount bigZero > 0)\<rparr> sc)"

text \<open>
  \<^verbatim>\<open>removeStake\<close> reads the map without checking that the address is there; for an
  unknown address the read gives a nil pointer and the next line panics.
\<close>

definition removeStake :: "address \<Rightarrow> int \<Rightarrow> validatorStakeMap \<Rightarrow> error + validatorStakeMap" where
  "removeStake address amount sc =
     (case map_of sc address of
        None \<Rightarrow> Inl PanicNilDereference
      | Some stakeData \<Rightarrow>
          Inr (AList.update address
            (stakeData\<lparr>VotingPower := VotingPower stakeData - amount,
                       IsActive := (big_Cmp (VotingPower stakeData - amount) bigZero > 0)\<rparr>) sc))"

text \<open>The comparison closure handed to \<^verbatim>\<open>sort.Slice\<close> in \<^verbatim>\<open>getSorted\<close>.\<close>

definition getSorted_less :: "ValidatorMetadata \<Rightarrow> ValidatorMetadata \<Rightarrow> bool" where
  "getSorted_less v1 v2 =
     (let c = big_Cmp (VotingPower v1) (VotingPower v2) in
      if c = 1 then True
      else if c = 0 then bytes_Compare (Address v1) (Address v2) < 0
      else False)"

text \<open>
  \<^verbatim>\<open>sort.Slice\<close> of the Go library sorts in place by the given comparison and is not
  stable. It is an insertion sort here. Lemma \<open>sort_Slice_unique\<close> below shows that on
  the records of a well-formed ledger every sorted rearrangement is this one, so the
  algorithm does not matter there.
\<close>

fun sort_Slice_insert :: "('a \<Rightarrow> 'a \<Rightarrow> bool) \<Rightarrow> 'a \<Rightarrow> 'a list \<Rightarrow> 'a list" where
  "sort_Slice_insert lessFn x [] = [x]"
| "sort_Slice_insert lessFn x (y # ys) =
     (if lessFn y x then y # sort_Slice_insert lessFn x ys else x # y # ys)"

definition sort_Slice :: "('a \<Rightarrow> 'a \<Rightarrow> bool) \<Rightarrow> 'a list \<Rightarrow> 'a list" where
  "sort_Slice lessFn xs = foldr (sort_Slice_insert lessFn) xs []"

text \<open>
  \<^verbatim>\<open>getSorted\<close>. The Go function slices \<^verbatim>\<open>activeValidators[:maxValidatorSetSize]\<close> when
  the list is longer than the bound; with a negative bound that is a runtime panic.
\<close>

definition getSorted :: "int \<Rightarrow> validatorStakeMap \<Rightarrow> error + AccountSet" where
  "getSorted maxValidatorSetSize sc =
     (let activeValidators =
            sort_Slice getSorted_less
              (filter (\<lambda>v. big_Cmp (VotingPower v) bigZero > 0) (map snd sc))
      in if int (length activeValidators) \<le> maxValidatorSetSize then Inr activeValidators
         else if maxValidatorSetSize < 0 then Inl PanicSliceBounds
         else Inr (take (nat maxValidatorSetSize) activeValidators))"

definition GetAllValidators :: "StakeStore \<Rightarrow> error + AccountSet" where
  "GetAllValidators s =
     (case getFullValidatorSet s of
        Inl err \<Rightarrow> Inl err
      | Inr fullValidatorSet \<Rightarrow>
          getSorted (int (length (Validators fullValidatorSet))) (Validators fullValidatorSet))"

section \<open>The stake manager\<close>

definition PostEpoch :: "PostEpochRequest \<Rightarrow> StakeStore \<Rightarrow> error + StakeStore" where
  "PostEpoch req s =
     (if NewEpochID req \<noteq> 1 then Inr s
      else insertFullValidatorSet
             \<lparr>BlockNumber = 0, EpochID = 0, UpdatedAtBlockNumber = 0,
              Validators = newValidatorStakeMap (ValidatorSet req)\<rparr> s)"

text \<open>The first loop of \<^verbatim>\<open>updateWithReceipts\<close>: one transfer event after the other.\<close>

fun applyTransferEvents ::
  "TransferEvent list \<Rightarrow> validatorStakeMap \<Rightarrow> error + validatorStakeMap" where
  "applyTransferEvents [] sc = Inr sc"
| "applyTransferEvents (event # events) sc =
     (if IsStake event then applyTransferEvents events (addStake (To event) (Value event) sc)
      else if IsUnstake event then
        (case removeStake (From event) (Value event) sc of
           Inl err \<Rightarrow> Inl err
         | Inr sc' \<Rightarrow> applyTransferEvents events sc')
      else applyTransferEvents events sc)"

text \<open>
  The second loop of \<^verbatim>\<open>updateWithReceipts\<close>: it visits every entry of the map, asks
  \<^verbatim>\<open>getBlsKey\<close> for a missing key (a failure is logged and the nil result stored), and
  recomputes the active flag. \<^verbatim>\<open>getBlsKey\<close> calls the root chain; it is a parameter.
\<close>

fun resolveKeys ::
  "(address \<Rightarrow> error + PublicKey) \<Rightarrow> validatorStakeMap \<Rightarrow> validatorStakeMap \<times> effect list" where
  "resolveKeys getBlsKey [] = ([], [])"
| "resolveKeys getBlsKey ((addr, data) # rest) =
     (let (data', fx) =
            (case BlsKey data of
               Some k \<Rightarrow> (data, [])
             | None \<Rightarrow>
                 (case getBlsKey (Address data) of
                    Inl err \<Rightarrow>
                      (data\<lparr>BlsKey := None\<rparr>,
                       [GetBlsKeyCall (Address data), WarnCouldNotGetInfo addr])
                  | Inr blsKey \<Rightarrow>
                      (data\<lparr>BlsKey := Some blsKey\<rparr>, [GetBlsKeyCall (Address data)])));
          data'' = data'\<lparr>IsActive := (big_Cmp (VotingPower data') bigZero > 0)\<rparr>;
          (rest', fx') = resolveKeys getBlsKey rest
      in ((addr, data'') # rest', fx @ fx'))"

text \<open>
  \<^verbatim>\<open>updateWithReceipts\<close>. \<^verbatim>\<open>eventsGetter.getFromBlocks\<close> reads the chain; it is a
  parameter that returns the transfer events or an error.
\<close>

definition updateWithReceipts ::
  "(address \<Rightarrow> error + PublicKey) \<Rightarrow> (uint64 \<Rightarrow> FullBlock \<Rightarrow> error + TransferEvent list) \<Rightarrow>
   validatorSetState \<Rightarrow> FullBlock \<Rightarrow> error + (validatorSetState \<times> effect list)" where
  "updateWithReceipts getBlsKey getFromBlocks fullValidatorSet fullBlock =
     (case getFromBlocks (BlockNumber fullValidatorSet) fullBlock of
        Inl err \<Rightarrow> Inl (CouldNotGetTransferEvents err)
      | Inr transferEvents \<Rightarrow>
          if length transferEvents = 0 then Inr (fullValidatorSet, [])
          else
            (case applyTransferEvents transferEvents (Validators fullValidatorSet) of
               Inl err \<Rightarrow> Inl err
             | Inr sc \<Rightarrow>
                 (let (sc', fx) = resolveKeys getBlsKey sc
                  in Inr (fullValidatorSet
                            \<lparr>Validators := sc',
                             UpdatedAtBlockNumber := BlockNumber fullValidatorSet\<rparr>, fx))))"

definition PostBlock ::
  "(address \<Rightarrow> error + PublicKey) \<Rightarrow> (uint64 \<Rightarrow> FullBlock \<Rightarrow> error + TransferEvent list) \<Rightarrow>
   PostBlockRequest \<Rightarrow> StakeStore \<Rightarrow> error + (StakeStore \<times> effect list)" where
  "PostBlock getBlsKey getFromBlocks req s =
     (case getFullValidatorSet s of
        Inl err \<Rightarrow> Inl err
      | Inr fullValidatorSet \<Rightarrow>
          (case updateWithReceipts getBlsKey getFromBlocks fullValidatorSet (FullBlock req) of
             Inl err \<Rightarrow> Inl err
           | Inr (fullValidatorSet', fx) \<Rightarrow>
               (case insertFullValidatorSet
                       (fullValidatorSet'\<lparr>EpochID := Epoch req,
                                          BlockNumber := Number (FullBlock req)\<rparr>) s of
                  Inl err \<Rightarrow> Inl err
                | Inr s' \<Rightarrow> Inr (s', fx))))"

text \<open>
  The first loop of \<^verbatim>\<open>UpdateValidatorSet\<close>: it fills \<^verbatim>\<open>oldActiveMap\<close> and sets bit \<open>i\<close> of
  the removed bitmap when the address at position \<open>i\<close> is not in \<^verbatim>\<open>addressesSet\<close>.
\<close>

fun scanOldValidatorSet ::
  "address set \<Rightarrow> AccountSet \<Rightarrow> nat \<Rightarrow> (address \<rightharpoonup> ValidatorMetadata) \<times> Bitmap \<Rightarrow>
   (address \<rightharpoonup> ValidatorMetadata) \<times> Bitmap" where
  "scanOldValidatorSet addressesSet [] i acc = acc"
| "scanOldValidatorSet addressesSet (v # vs) i (oldActiveMap, removedBitmap) =
     scanOldValidatorSet addressesSet vs (Suc i)
       (oldActiveMap(Address v \<mapsto> v),
        if Address v \<in> addressesSet then removedBitmap else Bitmap_Set removedBitmap i)"

text \<open>
  The second loop: a validator of the new set that was in the old set goes to the updated
  list when its voting power changed; one that was not goes to the added list, after its
  key, when missing, has been fetched. A failed fetch ends the function with an error.
\<close>

fun diffNewValidatorSet ::
  "(address \<Rightarrow> error + PublicKey) \<Rightarrow> (address \<rightharpoonup> ValidatorMetadata) \<Rightarrow> AccountSet \<Rightarrow>
   AccountSet \<times> AccountSet \<Rightarrow> error + (AccountSet \<times> AccountSet)" where
  "diffNewValidatorSet getBlsKey oldActiveMap [] acc = Inr acc"
| "diffNewValidatorSet getBlsKey oldActiveMap (newValidator # rest)
       (updatedValidators, addedValidators) =
     (case oldActiveMap (Address newValidator) of
        Some oldValidator \<Rightarrow>
          if big_Cmp (VotingPower oldValidator) (VotingPower newValidator) \<noteq> 0
          then diffNewValidatorSet getBlsKey oldActiveMap rest
                 (updatedValidators @ [newValidator], addedValidators)
          else diffNewValidatorSet getBlsKey oldActiveMap rest
                 (updatedValidators, addedValidators)
      | None \<Rightarrow>
          (case BlsKey newValidator of
             Some k \<Rightarrow>
               diffNewValidatorSet getBlsKey oldActiveMap rest
                 (updatedValidators, addedValidators @ [newValidator])
           | None \<Rightarrow>
               (case getBlsKey (Address newValidator) of
                  Inl err \<Rightarrow> Inl (CouldNotRetrieveValidatorData (Address newValidator) err)
                | Inr blsKey \<Rightarrow>
                    diffNewValidatorSet getBlsKey oldActiveMap rest
                      (updatedValidators,
                       addedValidators @ [newValidator\<lparr>BlsKey := Some blsKey\<rparr>]))))"

text \<open>
  \<^verbatim>\<open>UpdateValidatorSet\<close>. The bound arrives as \<^verbatim>\<open>uint64\<close> and is converted with
  \<^verbatim>\<open>int(maxValidatorSetSize)\<close>: the signed reading of the same 64 bits. With debug logging on,
  the function applies the delta to a copy of the old set and returns the error of that
  call, if any; \<open>debugApplyDelta\<close> stands for \<^verbatim>\<open>logger.IsDebug\<close> and \<^verbatim>\<open>ApplyDelta\<close> together
  (\<open>None\<close> when logging is off or the call succeeds).
\<close>

definition UpdateValidatorSet ::
  "(address \<Rightarrow> error + PublicKey) \<Rightarrow> (AccountSet \<Rightarrow> ValidatorSetDelta \<Rightarrow> error option) \<Rightarrow>
   uint64 \<Rightarrow> uint64 \<Rightarrow> AccountSet \<Rightarrow> StakeStore \<Rightarrow> error + ValidatorSetDelta" where
  "UpdateValidatorSet getBlsKey debugApplyDelta epoch maxValidatorSetSize oldValidatorSet s =
     (case getFullValidatorSet s of
        Inl err \<Rightarrow> Inl (FailedToGetFullValidatorsSet epoch err)
      | Inr fullValidatorSet \<Rightarrow>
          (case getSorted (sint maxValidatorSetSize) (Validators fullValidatorSet) of
             Inl err \<Rightarrow> Inl err
           | Inr newValidatorSet \<Rightarrow>
               (let addressesSet = set (map Address newValidatorSet);
                    (oldActiveMap, removedBitmap) =
                      scanOldValidatorSet addressesSet oldValidatorSet 0 (Map.empty, [])
                in case diffNewValidatorSet getBlsKey oldActiveMap newValidatorSet ([], []) of
                     Inl err \<Rightarrow> Inl err
                   | Inr (updatedValidators, addedValidators) \<Rightarrow>
                       (let delta = \<lparr>Added = addedValidators, Updated = updatedValidators,
                                     Removed = removedBitmap\<rparr>
                        in case debugApplyDelta oldValidatorSet delta of
                             Some err \<Rightarrow> Inl err
                           | None \<Rightarrow> Inr delta))))"

section \<open>Exit events\<close>

text \<open>
  Modelled from the spec: \<^verbatim>\<open>ExitEvent\<close>, the exit event store and
  \<^verbatim>\<open>checkpointManager.PostBlock\<close> are not among the sources; only
  \<^verbatim>\<open>checkpoint_manager_test.go\<close> is. The spec (3): an exit event has an id, an epoch id
  and an originating block number. A block, as the exit event store sees it, is its
  number, the epoch number in the checkpoint data of its header, whether it ends its
  epoch, and the ids of the exit events decoded from its receipts. The test reads the
  epoch from the header (\<^verbatim>\<open>extra.Checkpoint.EpochNumber\<close>), not from the request.
\<close>

record ExitEvent =
  ID :: uint64
  EpochNumber :: uint64
  ExitBlockNumber :: uint64

record ExitBlock =
  BlockNo :: uint64
  CheckpointEpoch :: uint64
  EndsEpoch :: bool
  ExitIds :: "uint64 list"

record ExitEventStore =
  lastSaved :: uint64
  exitEvents :: "ExitEvent list"


text \<open>
  Modelled from the spec: the attribution of \<^verbatim>\<open>checkpointManager.PostBlock\<close> (4.4): "each
  decoded event is attributed to a bucket keyed by (epoch id, block number). Special
  rule: exit events produced in an epoch-ending block are attributed to the first block
  of the next epoch, not the ending block itself".
\<close>

definition exitEventsOfBlock :: "ExitBlock \<Rightarrow> ExitEvent list" where
  "exitEventsOfBlock b =
     (let epoch = (if EndsEpoch b then CheckpointEpoch b + 1 else CheckpointEpoch b);
          block = (if EndsEpoch b then BlockNo b + 1 else BlockNo b)
      in map (\<lambda>i. \<lparr>ID = i, EpochNumber = epoch, ExitBlockNumber = block\<rparr>) (ExitIds b))"

text \<open>
  Modelled from the spec: \<^verbatim>\<open>checkpointManager.PostBlock\<close> (4.4): "before processing the
  current block, the Store compares the last-saved block number to the current block's
  predecessor; if a gap exists, it individually fetches each missing block's header and
  receipts from the blockchain collaborator and processes them, in ascending order, before
  the current block". A block the blockchain does not have is an error.
\<close>

fun missedBlocks :: "(uint64 \<Rightarrow> ExitBlock option) \<Rightarrow> nat list \<Rightarrow> error + ExitBlock list" where
  "missedBlocks blockchain [] = Inr []"
| "missedBlocks blockchain (n # ns) =
     (case blockchain (of_nat n) of
        None \<Rightarrow> Inl (CollaboratorError ''could not get header of missed block'')
      | Some b \<Rightarrow>
          (case missedBlocks blockchain ns of
             Inl err \<Rightarrow> Inl err
           | Inr bs \<Rightarrow> Inr (b # bs)))"

definition checkpointPostBlock ::
  "(uint64 \<Rightarrow> ExitBlock option) \<Rightarrow> ExitBlock \<Rightarrow> ExitEventStore \<Rightarrow> error + ExitEventStore" where
  "checkpointPostBlock blockchain current store =
     (case missedBlocks blockchain [Suc (unat (lastSaved store)) ..< unat (BlockNo current)] of
        Inl err \<Rightarrow> Inl err
      | Inr missed \<Rightarrow>
          Inr \<lparr>lastSaved = BlockNo current,
               exitEvents = exitEvents store @ concat (map exitEventsOfBlock (missed @ [current]))\<rparr>)"

text \<open>
  Modelled from the spec: \<^verbatim>\<open>ExitEventStore.getExitEvents\<close>, as the test calls it: the
  events of an epoch that pass a filter, ordered by id. \<open>onBlock\<close> is the filter of the
  test, \<^verbatim>\<open>exitEvent.BlockNumber == block\<close>.
\<close>

definition onBlock :: "uint64 \<Rightarrow> ExitEvent \<Rightarrow> bool" where
  "onBlock n exitEvent = (ExitBlockNumber exitEvent = n)"

definition getExitEvents :: "uint64 \<Rightarrow> (ExitEvent \<Rightarrow> bool) \<Rightarrow> ExitEventStore \<Rightarrow> ExitEvent list" where
  "getExitEvents epoch filterFn store =
     sort_key ID (filter (\<lambda>e. EpochNumber e = epoch \<and> filterFn e) (exitEvents store))"

section \<open>Notions used to state the properties\<close>

text \<open>
  The order the spec asks of the selection: descending by voting power, ties by ascending
  address bytes. \<open>ranks_not_after v1 v2\<close> says that \<open>v1\<close> may stand before \<open>v2\<close>;
  addresses are compared as byte strings, lexicographically.
\<close>

definition ranks_not_after :: "ValidatorMetadata \<Rightarrow> ValidatorMetadata \<Rightarrow> bool" where
  "ranks_not_after v1 v2 \<longleftrightarrow>
     VotingPower v2 < VotingPower v1 \<or>
     (VotingPower v1 = VotingPower v2 \<and> Address v1 \<le> Address v2)"

definition validator_key :: "ValidatorMetadata \<Rightarrow> int \<times> address" where
  "validator_key v = (- VotingPower v, Address v)"

definition activeSorted :: "validatorStakeMap \<Rightarrow> AccountSet" where
  "activeSorted sc = sort_key validator_key (filter (\<lambda>v. 0 < VotingPower v) (map snd sc))"

text \<open>
  A Go map has one entry per key, and every function of the source that stores an entry
  stores it under its own address (\<^verbatim>\<open>newValidatorStakeMap\<close>, \<^verbatim>\<open>addStake\<close>).
\<close>

definition ledger_wf :: "validatorStakeMap \<Rightarrow> bool" where
  "ledger_wf sc \<longleftrightarrow> distinct (map fst sc) \<and> list_all (\<lambda>(k, v). Address v = k) sc"

definition record_consistent :: "ValidatorMetadata \<Rightarrow> bool" where
  "record_consistent v \<longleftrightarrow> IsActive v = (0 < VotingPower v)"

definition ledger_consistent :: "validatorStakeMap \<Rightarrow> bool" where
  "ledger_consistent sc \<longleftrightarrow> list_all (\<lambda>(k, v). record_consistent v) sc"

definition votingPowerOf :: "validatorStakeMap \<Rightarrow> address \<Rightarrow> int" where
  "votingPowerOf sc a = (case map_of sc a of None \<Rightarrow> 0 | Some v \<Rightarrow> VotingPower v)"

text \<open>What the events of a block mint to and burn from an address, as the loop reads them:
  an event that is a stake is not looked at as an unstake.\<close>

definition minted :: "address \<Rightarrow> TransferEvent list \<Rightarrow> int" where
  "minted a events = sum_list (map Value (filter (\<lambda>e. IsStake e \<and> To e = a) events))"

definition burned :: "address \<Rightarrow> TransferEvent list \<Rightarrow> int" where
  "burned a events =
     sum_list (map Value (filter (\<lambda>e. \<not> IsStake e \<and> IsUnstake e \<and> From e = a) events))"

definition touched :: "TransferEvent list \<Rightarrow> address \<Rightarrow> bool" where
  "touched events a \<longleftrightarrow>
     list_ex (\<lambda>e. (IsStake e \<and> To e = a) \<or> (\<not> IsStake e \<and> IsUnstake e \<and> From e = a)) events"

text \<open>The operations that change the records of the ledger, to state what holds after
  any sequence of them. \<open>OpRecompute\<close> is the second loop of \<^verbatim>\<open>updateWithReceipts\<close>.\<close>

datatype ledgerOp =
  OpAddStake address int
  | OpRemoveStake address int
  | OpRecompute

fun applyLedgerOp ::
  "(address \<Rightarrow> error + PublicKey) \<Rightarrow> ledgerOp \<Rightarrow> validatorStakeMap \<Rightarrow> error + validatorStakeMap" where
  "applyLedgerOp getBlsKey (OpAddStake a n) sc = Inr (addStake a n sc)"
| "applyLedgerOp getBlsKey (OpRemoveStake a n) sc = removeStake a n sc"
| "applyLedgerOp getBlsKey OpRecompute sc = Inr (fst (resolveKeys getBlsKey sc))"

fun runLedgerOps ::
  "(address \<Rightarrow> error + PublicKey) \<Rightarrow> ledgerOp list \<Rightarrow> validatorStakeMap \<Rightarrow> error + validatorStakeMap" where
  "runLedgerOps getBlsKey [] sc = Inr sc"
| "runLedgerOps getBlsKey (op # ops) sc =
     (case applyLedgerOp getBlsKey op sc of
        Inl err \<Rightarrow> Inl err
      | Inr sc' \<Rightarrow> runLedgerOps getBlsKey ops sc')"

subsection \<open>Concrete inputs\<close>

definition addrA :: address where
  "addrA = [0, 0, 0, 0, 0, 0, 0, 0, 0, 0, 0, 0, 0, 0, 0, 0, 0, 0, 0, 0x0A]"

definition addrB :: address where
  "addrB = [0, 0, 0, 0, 0, 0, 0, 0, 0, 0, 0, 0, 0, 0, 0, 0, 0, 0, 0, 0x0B]"

definition addrC :: address where
  "addrC = [0, 0, 0, 0, 0, 0, 0, 0, 0, 0, 0, 0, 0, 0, 0, 0, 0, 0, 0, 0x0C]"

definition valA :: ValidatorMetadata where
  "valA = \<lparr>Address = addrA, BlsKey = Some [0xA1], VotingPower = 10, IsActive = True\<rparr>"

definition valB :: ValidatorMetadata where
  "valB = \<lparr>Address = addrB, BlsKey = None, VotingPower = 10, IsActive = True\<rparr>"

definition valC :: ValidatorMetadata where
  "valC = \<lparr>Address = addrC, BlsKey = Some [0xC1], VotingPower = 5, IsActive = True\<rparr>"

definition ledgerABC :: validatorSetState where
  "ledgerABC = \<lparr>BlockNumber = 4, EpochID = 2, UpdatedAtBlockNumber = 4,
                Validators = [(addrC, valC), (addrB, valB), (addrA, valA)]\<rparr>"

definition ledgerBAC :: validatorSetState where
  "ledgerBAC = \<lparr>BlockNumber = 4, EpochID = 2, UpdatedAtBlockNumber = 4,
                Validators = [(addrB, valB), (addrA, valA), (addrC, valC)]\<rparr>"

text \<open>A root chain whose every call fails, one that knows a key for every address, and
  debug logging switched off.\<close>

definition rootChainDown :: "address \<Rightarrow> error + PublicKey" where
  "rootChainDown a = Inl (CollaboratorError ''failed to invoke validators function'')"

definition rootChainUp :: "address \<Rightarrow> error + PublicKey" where
  "rootChainUp a = Inr (0xFF # a)"

definition debugOff :: "AccountSet \<Rightarrow> ValidatorSetDelta \<Rightarrow> error option" where
  "debugOff old delta = None"

definition ledgerZeroed :: validatorSetState where
  "ledgerZeroed = \<lparr>BlockNumber = 7, EpochID = 3, UpdatedAtBlockNumber = 6,
     Validators = [(addrB, \<lparr>Address = addrB, BlsKey = None, VotingPower = 0, IsActive = False\<rparr>),
                   (addrA, valA)]\<rparr>"

text \<open>What the second loop of \<^verbatim>\<open>updateWithReceipts\<close> leaves in one entry (lemma
  \<open>resolveKeys_fst\<close>).\<close>

definition resolvedRecord ::
  "(address \<Rightarrow> error + PublicKey) \<Rightarrow> ValidatorMetadata \<Rightarrow> ValidatorMetadata" where
  "resolvedRecord getBlsKey data =
     data\<lparr>BlsKey := (case BlsKey data of
                        Some k \<Rightarrow> Some k
                      | None \<Rightarrow> (case getBlsKey (Address data) of
                                  Inl err \<Rightarrow> None | Inr k \<Rightarrow> Some k)),
           IsActive := (0 < VotingPower data)\<rparr>"

text \<open>A genesis validator with no stake, flagged active, and the ledger made from it.\<close>

definition genesisZero :: ValidatorMetadata where
  "genesisZero = \<lparr>Address = addrA, BlsKey = Some [0xA1], VotingPower = 0, IsActive = True\<rparr>"

definition ledgerGenesisZero :: validatorSetState where
  "ledgerGenesisZero = \<lparr>BlockNumber = 0, EpochID = 0, UpdatedAtBlockNumber = 0,
                         Validators = [(addrA, genesisZero)]\<rparr>"

text \<open>A block with a stake for a new validator B, a stake for A and an unstake from C.\<close>

definition eventsBlock5 :: "TransferEvent list" where
  "eventsBlock5 =
     [\<lparr>From = [], To = addrB, Value = 7, IsStake = True, IsUnstake = False\<rparr>,
      \<lparr>From = [], To = addrA, Value = 2, IsStake = True, IsUnstake = False\<rparr>,
      \<lparr>From = addrC, To = [], Value = 5, IsStake = False, IsUnstake = True\<rparr>]"

definition ledgerAC :: validatorSetState where
  "ledgerAC = \<lparr>BlockNumber = 4, EpochID = 2, UpdatedAtBlockNumber = 4,
               Validators = [(addrA, valA), (addrC, valC)]\<rparr>"

definition getFromBlock5 :: "uint64 \<Rightarrow> FullBlock \<Rightarrow> error + TransferEvent list" where
  "getFromBlock5 lastProcessed fullBlock = Inr eventsBlock5"

definition requestBlock5 :: PostBlockRequest where
  "requestBlock5 = \<lparr>FullBlock = \<lparr>Number = 5, Receipts = []\<rparr>, Epoch = 3,
                     IsEpochEndingBlock = False\<rparr>"

text \<open>The ledger after block 5 when the root chain answers, and when it does not.\<close>

definition ledgerAfterBlock5 :: "PublicKey option \<Rightarrow> validatorSetState" where
  "ledgerAfterBlock5 keyB =
     \<lparr>BlockNumber = 4, EpochID = 2, UpdatedAtBlockNumber = 4,
      Validators =
        [(addrA, \<lparr>Address = addrA, BlsKey = Some [0xA1], VotingPower = 12, IsActive = True\<rparr>),
         (addrC, \<lparr>Address = addrC, BlsKey = Some [0xC1], VotingPower = 0, IsActive = False\<rparr>),
         (addrB, \<lparr>Address = addrB, BlsKey = keyB, VotingPower = 7, IsActive = True\<rparr>)]\<rparr>"

text \<open>An unstake from an address that has no entry, and an empty ledger.\<close>

definition eventsUnstakeUnknown :: "TransferEvent list" where
  "eventsUnstakeUnknown =
     [\<lparr>From = addrB, To = [], Value = 0, IsStake = False, IsUnstake = True\<rparr>]"

definition getFromUnstakeUnknown :: "uint64 \<Rightarrow> FullBlock \<Rightarrow> error + TransferEvent list" where
  "getFromUnstakeUnknown lastProcessed fullBlock = Inr eventsUnstakeUnknown"

definition ledgerEmpty :: validatorSetState where
  "ledgerEmpty = \<lparr>BlockNumber = 0, EpochID = 0, UpdatedAtBlockNumber = 0, Validators = []\<rparr>"

text \<open>The blockchain, the blocks and the stores of \<^verbatim>\<open>TestCheckpointManager_PostBlock\<close>, and
  blocks 9 and 10 of a chain with epoch size 2.\<close>

definition noBlockchain :: "uint64 \<Rightarrow> ExitBlock option" where
  "noBlockchain n = None"

definition testBlockchain :: "uint64 \<Rightarrow> ExitBlock option" where
  "testBlockchain n =
     (if n = 6 then Some \<lparr>BlockNo = 6, CheckpointEpoch = 2, EndsEpoch = False, ExitIds = []\<rparr>
      else if n = 7 then
        Some \<lparr>BlockNo = 7, CheckpointEpoch = 2, EndsEpoch = False, ExitIds = [10, 11, 12]\<rparr>
      else None)"

definition testStore1 :: ExitEventStore where
  "testStore1 = \<lparr>lastSaved = 5, exitEvents =
     [\<lparr>ID = 0, EpochNumber = 1, ExitBlockNumber = 5\<rparr>,
      \<lparr>ID = 1, EpochNumber = 1, ExitBlockNumber = 5\<rparr>,
      \<lparr>ID = 2, EpochNumber = 1, ExitBlockNumber = 5\<rparr>,
      \<lparr>ID = 3, EpochNumber = 1, ExitBlockNumber = 5\<rparr>,
      \<lparr>ID = 4, EpochNumber = 1, ExitBlockNumber = 5\<rparr>]\<rparr>"

definition testStore2 :: ExitEventStore where
  "testStore2 = \<lparr>lastSaved = 6, exitEvents = exitEvents testStore1 @
     [\<lparr>ID = 5, EpochNumber = 2, ExitBlockNumber = 7\<rparr>,
      \<lparr>ID = 6, EpochNumber = 2, ExitBlockNumber = 7\<rparr>,
      \<lparr>ID = 7, EpochNumber = 2, ExitBlockNumber = 7\<rparr>,
      \<lparr>ID = 8, EpochNumber = 2, ExitBlockNumber = 7\<rparr>,
      \<lparr>ID = 9, EpochNumber = 2, ExitBlockNumber = 7\<rparr>]\<rparr>"

definition testStore3 :: ExitEventStore where
  "testStore3 = \<lparr>lastSaved = 8, exitEvents = exitEvents testStore2 @
     [\<lparr>ID = 10, EpochNumber = 2, ExitBlockNumber = 7\<rparr>,
      \<lparr>ID = 11, EpochNumber = 2, ExitBlockNumber = 7\<rparr>,
      \<lparr>ID = 12, EpochNumber = 2, ExitBlockNumber = 7\<rparr>,
      \<lparr>ID = 13, EpochNumber = 2, ExitBlockNumber = 8\<rparr>,
      \<lparr>ID = 14, EpochNumber = 2, ExitBlockNumber = 8\<rparr>]\<rparr>"





section \<open>Properties\<close>

lemma map_of_addStake:
  "map_of (addStake a n sc) =
     (map_of sc)(a \<mapsto>
        (case map_of sc a of
           Some md \<Rightarrow> md\<lparr>VotingPower := VotingPower md + n, IsActive := (0 < VotingPower md + n)\<rparr>
         | None \<Rightarrow> \<lparr>Address = a, BlsKey = None, VotingPower = n, IsActive = (0 < n)\<rparr>))"
  by (auto simp: addStake_def big_Cmp_def bigZero_def update_conv split: option.splits)

lemma removeStake_Inr:
  "removeStake a n sc = Inr sc' \<Longrightarrow>
     \<exists>md. map_of sc a = Some md \<and>
       map_of sc' = (map_of sc)(a \<mapsto> md\<lparr>VotingPower := VotingPower md - n,
                                          IsActive := (0 < VotingPower md - n)\<rparr>)"
  by (auto simp: removeStake_def big_Cmp_def bigZero_def update_conv split: option.splits)

lemma big_Cmp_pos: "big_Cmp x bigZero > 0 \<longleftrightarrow> 0 < x"
  by (simp add: big_Cmp_def bigZero_def)

subsection \<open>Sorting\<close>

lemma sint_small: "unat (m::64 word) < 2 ^ 63 \<Longrightarrow> sint m = int (unat m)"
proof -
  assume a: "unat m < 2 ^ 63"
  have lt: "int (unat m) < 2 ^ 63" using a by (simp add: nat_int_comparison(2))
  have ge: "- (2 ^ 63) \<le> int (unat m)" by (rule order_trans [of _ 0]) simp_all
  have "signed_take_bit (63::nat) (int (unat m)) = int (unat m)"
    using ge lt signed_take_bit_int_eq_self [of "63::nat" "int (unat m)"] by blast
  then show ?thesis by (simp add: sint_uint)
qed

text \<open>\<^verbatim>\<open>bytes.Compare\<close> is the lexicographic order on byte strings.\<close>

lemma bytes_Compare_less: "bytes_Compare a b < 0 \<longleftrightarrow> a < b"
  by (induction a b rule: bytes_Compare.induct) auto

lemma getSorted_less_key: "getSorted_less v1 v2 \<longleftrightarrow> validator_key v1 < validator_key v2"
  by (auto simp: getSorted_less_def validator_key_def big_Cmp_def bytes_Compare_less Let_def)

lemma ranks_key: "ranks_not_after v1 v2 \<longleftrightarrow> validator_key v1 \<le> validator_key v2"
  by (auto simp: ranks_not_after_def validator_key_def)

lemma sort_Slice_insert_insort_key:
  "(\<And>x y. lessFn x y \<longleftrightarrow> f x < f y) \<Longrightarrow> sort_Slice_insert lessFn x ys = insort_key f x ys"
  by (induction ys) (auto simp: not_less)

lemma sort_Slice_sort_key:
  "(\<And>x y. lessFn x y \<longleftrightarrow> f x < f y) \<Longrightarrow> sort_Slice lessFn xs = sort_key f xs"
  by (induction xs) (auto simp: sort_Slice_def sort_key_def sort_Slice_insert_insort_key)

lemma activeSorted_eq:
  "sort_Slice getSorted_less (filter (\<lambda>v. big_Cmp (VotingPower v) bigZero > 0) (map snd sc))
     = activeSorted sc"
  unfolding activeSorted_def big_Cmp_pos
  by (rule sort_Slice_sort_key) (rule getSorted_less_key)

lemma getSorted_eq:
  "getSorted n sc =
     (if int (length (activeSorted sc)) \<le> n then Inr (activeSorted sc)
      else if n < 0 then Inl PanicSliceBounds else Inr (take (nat n) (activeSorted sc)))"
  unfolding getSorted_def activeSorted_eq by (simp add: Let_def)

lemma getSorted_nonneg: "0 \<le> n \<Longrightarrow> getSorted n sc = Inr (take (nat n) (activeSorted sc))"
  by (simp add: getSorted_eq)

lemma sorted_activeSorted: "sorted_wrt ranks_not_after (activeSorted sc)"
proof -
  have "sorted (map validator_key (activeSorted sc))"
    by (simp add: activeSorted_def)
  then show ?thesis
    by (simp add: sorted_map ranks_key [abs_def])
qed

lemma mset_activeSorted:
  "mset (activeSorted sc) = mset (filter (\<lambda>v. 0 < VotingPower v) (map snd sc))"
  by (simp add: activeSorted_def)

lemma filter_eq_on: "(\<And>x. x \<in> set xs \<Longrightarrow> P x = Q x) \<Longrightarrow> filter P xs = filter Q xs"
  by (induction xs) auto

lemma filter_eq_replicate: "filter (\<lambda>x. k = x) xs = replicate (count (mset xs) k) k"
  by (induction xs) auto

text \<open>When the key separates the elements, there is one sorted rearrangement only.\<close>

lemma sorted_by_key_unique:
  assumes inj: "inj_on f (set xs)" and m: "mset ys = mset xs" and s: "sorted (map f ys)"
  shows "sort_key f xs = ys"
proof (rule properties_for_sort_key [OF m _ s])
  fix k assume k: "k \<in> set ys"
  have sets: "set ys = set xs" by (rule mset_eq_setD [OF m])
  have pw: "\<And>x. x \<in> set xs \<Longrightarrow> (f k = f x) = (k = x)"
    using inj k sets by (auto simp: inj_on_def)
  have "filter (\<lambda>x. f k = f x) ys = filter (\<lambda>x. k = x) ys"
    by (rule filter_eq_on) (simp add: pw sets)
  also have "\<dots> = filter (\<lambda>x. k = x) xs"
    using m by (simp add: filter_eq_replicate)
  also have "\<dots> = filter (\<lambda>x. f k = f x) xs"
    by (rule filter_eq_on) (simp add: pw)
  finally show "filter (\<lambda>x. f k = f x) ys = filter (\<lambda>x. f k = f x) xs" .
qed

lemma ledger_wf_inj:
  assumes "ledger_wf sc"
  shows "inj_on validator_key (snd ` set sc)"
proof (rule inj_onI)
  fix v w assume v: "v \<in> snd ` set sc" and w: "w \<in> snd ` set sc"
    and e: "validator_key v = validator_key w"
  from v obtain k where kv: "(k, v) \<in> set sc" by force
  from w obtain l where lw: "(l, w) \<in> set sc" by force
  from assms kv lw have "Address v = k" "Address w = l"
    by (auto simp: ledger_wf_def list_all_iff)
  with e have "k = l" by (simp add: validator_key_def)
  moreover from assms have "distinct (map fst sc)" by (simp add: ledger_wf_def)
  ultimately show "v = w" using kv lw by (metis eq_key_imp_eq_value)
qed

text \<open>
  \<open>sort_Slice_unique\<close>: on the records of a well-formed ledger, any rearrangement that
  is sorted by the comparison of \<^verbatim>\<open>getSorted\<close> is the one computed here.
\<close>

lemma sort_Slice_unique:
  assumes wf: "ledger_wf sc" and sub: "set xs \<subseteq> snd ` set sc"
    and m: "mset ys = mset xs"
    and s: "sorted_wrt (\<lambda>a b. \<not> getSorted_less b a) ys"
  shows "sort_Slice getSorted_less xs = ys"
proof -
  have "inj_on validator_key (set xs)"
    by (rule inj_on_subset [OF ledger_wf_inj [OF wf] sub])
  moreover have "sorted (map validator_key ys)"
    using s by (simp add: sorted_map getSorted_less_key not_less)
  ultimately have "sort_key validator_key xs = ys"
    using m by (intro sorted_by_key_unique)
  then show ?thesis
    by (simp add: sort_Slice_sort_key [OF getSorted_less_key])
qed

lemma activeSorted_order_irrelevant:
  assumes wf1: "ledger_wf sc1" and wf2: "ledger_wf sc2" and eq: "set sc1 = set sc2"
  shows "activeSorted sc1 = activeSorted sc2"
proof -
  have d1: "distinct sc1" and d2: "distinct sc2"
    using wf1 wf2 by (auto simp: ledger_wf_def distinct_map)
  have m: "mset sc1 = mset sc2" using d1 d2 eq by (simp add: set_eq_iff_mset_eq_distinct)
  have "mset (map snd sc1) = mset (map snd sc2)" using m by (metis mset_map)
  then have m': "mset (activeSorted sc2) = mset (filter (\<lambda>v. 0 < VotingPower v) (map snd sc1))"
    unfolding mset_activeSorted by (metis mset_filter)
  have "inj_on validator_key (set (filter (\<lambda>v. 0 < VotingPower v) (map snd sc1)))"
    by (rule inj_on_subset [OF ledger_wf_inj [OF wf1]]) auto
  moreover have "sorted (map validator_key (activeSorted sc2))"
    by (simp add: activeSorted_def)
  ultimately show ?thesis
    unfolding activeSorted_def [of sc1] using m' by (intro sorted_by_key_unique)
qed

subsection \<open>Unstaking more than the recorded stake\<close>

text \<open>
  C8. \<^verbatim>\<open>removeStake\<close> subtracts with unbounded integers and has no guard: when the
  amount \<open>a\<close> exceeds the recorded voting power \<open>p\<close> of a known validator, the call
  returns normally, the stored voting power is the negative number \<open>p - a\<close> (it is not
  clamped to zero) and the active flag is false.
\<close>

theorem removeStake_below_zero:
  assumes "map_of sc addr = Some md" and "VotingPower md = p" and "p < a"
  shows "\<exists>sc'. removeStake addr a sc = Inr sc' \<and>
           map_of sc' addr = Some (md\<lparr>VotingPower := p - a, IsActive := False\<rparr>) \<and>
           p - a < 0 \<and> p - a \<noteq> 0"
  using assms by (simp add: removeStake_def big_Cmp_pos update_conv)

theorem removeStake_below_zero_witness:
  "\<exists>sc'. removeStake [0x0A] 8
            [([0x0A], \<lparr>Address = [0x0A], BlsKey = None, VotingPower = 5, IsActive = True\<rparr>)]
          = Inr sc' \<and>
         map_of sc' [0x0A]
          = Some \<lparr>Address = [0x0A], BlsKey = None, VotingPower = - 3, IsActive = False\<rparr>"
  using removeStake_below_zero
    [of "[([0x0A], \<lparr>Address = [0x0A], BlsKey = None, VotingPower = 5, IsActive = True\<rparr>)]"
        "[0x0A]" "\<lparr>Address = [0x0A], BlsKey = None, VotingPower = 5, IsActive = True\<rparr>" 5 8]
  by simp

subsection \<open>Selection of the active set\<close>

lemma scenario_sorted:
  assumes ab: "a < b"
    and m: "mset sc = {#(a, \<lparr>Address = a, BlsKey = ka, VotingPower = 10, IsActive = ia\<rparr>),
                        (b, \<lparr>Address = b, BlsKey = kb, VotingPower = 10, IsActive = ib\<rparr>),
                        (c, \<lparr>Address = c, BlsKey = kc, VotingPower = 5, IsActive = ic\<rparr>)#}"
  shows "activeSorted sc = [\<lparr>Address = a, BlsKey = ka, VotingPower = 10, IsActive = ia\<rparr>,
                            \<lparr>Address = b, BlsKey = kb, VotingPower = 10, IsActive = ib\<rparr>,
                            \<lparr>Address = c, BlsKey = kc, VotingPower = 5, IsActive = ic\<rparr>]"
proof -
  let ?A = "\<lparr>Address = a, BlsKey = ka, VotingPower = 10, IsActive = ia\<rparr>"
  let ?B = "\<lparr>Address = b, BlsKey = kb, VotingPower = 10, IsActive = ib\<rparr>"
  let ?C = "\<lparr>Address = c, BlsKey = kc, VotingPower = 5, IsActive = ic\<rparr>"
  let ?xs = "filter (\<lambda>v. 0 < VotingPower v) (map snd sc)"
  have "mset (map snd sc) = {#?A, ?B, ?C#}"
    unfolding mset_map m by simp
  then have mx: "mset ?xs = {#?A, ?B, ?C#}"
    unfolding mset_filter by simp
  then have sx: "set ?xs = {?A, ?B, ?C}"
    by (metis set_mset_mset set_mset_add_mset_insert set_mset_empty)
  have inj: "inj_on validator_key (set ?xs)"
    unfolding sx using ab by (auto simp: inj_on_def validator_key_def)
  have srt: "sorted (map validator_key [?A, ?B, ?C])"
    using ab by (simp add: validator_key_def)
  have "mset [?A, ?B, ?C] = mset ?xs" using mx by simp
  from sorted_by_key_unique [OF inj this srt] show ?thesis
    by (simp add: activeSorted_def)
qed

text \<open>
  What the selection does for a bound below \<open>2^63\<close>, where \<^verbatim>\<open>int(maxValidatorSetSize)\<close>
  is the bound itself: the result is the first \<open>maxValidatorSetSize\<close> entries of a list
  that holds exactly the records with voting power above zero and is ordered descending
  by voting power, ties by ascending address bytes. In particular, the top 2 of A:10,
  B:10, C:5 with the address of A before that of B is [A, B], whatever the order of the
  entries.
\<close>

theorem getSorted_selects_top:
  "(unat (maxValidatorSetSize :: 64 word) < 2 ^ 63 \<longrightarrow>
      (\<exists>zs. getSorted (sint maxValidatorSetSize) sc = Inr (take (unat maxValidatorSetSize) zs) \<and>
            mset zs = mset (filter (\<lambda>v. 0 < VotingPower v) (map snd sc)) \<and>
            sorted_wrt ranks_not_after zs)) \<and>
   (a < b \<and>
    mset sc' = {#(a, \<lparr>Address = a, BlsKey = ka, VotingPower = 10, IsActive = ia\<rparr>),
                 (b, \<lparr>Address = b, BlsKey = kb, VotingPower = 10, IsActive = ib\<rparr>),
                 (c, \<lparr>Address = c, BlsKey = kc, VotingPower = 5, IsActive = ic\<rparr>)#} \<longrightarrow>
      getSorted 2 sc' = Inr [\<lparr>Address = a, BlsKey = ka, VotingPower = 10, IsActive = ia\<rparr>,
                             \<lparr>Address = b, BlsKey = kb, VotingPower = 10, IsActive = ib\<rparr>])"
proof (intro conjI impI)
  assume "unat maxValidatorSetSize < 2 ^ 63"
  then have "getSorted (sint maxValidatorSetSize) sc
      = Inr (take (unat maxValidatorSetSize) (activeSorted sc))"
    by (simp add: sint_small getSorted_nonneg)
  then show "\<exists>zs. getSorted (sint maxValidatorSetSize) sc = Inr (take (unat maxValidatorSetSize) zs) \<and>
            mset zs = mset (filter (\<lambda>v. 0 < VotingPower v) (map snd sc)) \<and>
            sorted_wrt ranks_not_after zs"
    using mset_activeSorted sorted_activeSorted by blast
next
  assume "a < b \<and>
    mset sc' = {#(a, \<lparr>Address = a, BlsKey = ka, VotingPower = 10, IsActive = ia\<rparr>),
                 (b, \<lparr>Address = b, BlsKey = kb, VotingPower = 10, IsActive = ib\<rparr>),
                 (c, \<lparr>Address = c, BlsKey = kc, VotingPower = 5, IsActive = ic\<rparr>)#}"
  then have "activeSorted sc' = [\<lparr>Address = a, BlsKey = ka, VotingPower = 10, IsActive = ia\<rparr>,
                            \<lparr>Address = b, BlsKey = kb, VotingPower = 10, IsActive = ib\<rparr>,
                            \<lparr>Address = c, BlsKey = kc, VotingPower = 5, IsActive = ic\<rparr>]"
    by (intro scenario_sorted) simp_all
  then show "getSorted 2 sc' = Inr [\<lparr>Address = a, BlsKey = ka, VotingPower = 10, IsActive = ia\<rparr>,
                             \<lparr>Address = b, BlsKey = kb, VotingPower = 10, IsActive = ib\<rparr>]"
    by (simp add: getSorted_nonneg)
qed

lemma addr_order: "addrA < addrB" "addrB < addrC" "addrA \<noteq> addrB" "addrA \<noteq> addrC" "addrB \<noteq> addrC"
  by (simp_all add: addrA_def addrB_def addrC_def)

theorem getSorted_selects_top_witness:
  "unat (2 :: 64 word) < 2 ^ 63 \<and> addrA < addrB \<and>
   getSorted (sint (2 :: 64 word)) (Validators ledgerABC) = Inr [valA, valB] \<and>
   getSorted 2 (Validators ledgerBAC) = Inr [valA, valB]"
  using getSorted_selects_top [where maxValidatorSetSize = 2 and sc = "Validators ledgerABC"
      and a = addrA and b = addrB and c = addrC and sc' = "Validators ledgerBAC"
      and ka = "Some [0xA1]" and kb = None and kc = "Some [0xC1]"
      and ia = True and ib = True and ic = True]
    getSorted_selects_top [where maxValidatorSetSize = 2 and sc = "Validators ledgerABC"
      and a = addrA and b = addrB and c = addrC and sc' = "Validators ledgerABC"
      and ka = "Some [0xA1]" and kb = None and kc = "Some [0xC1]"
      and ia = True and ib = True and ic = True]
  by (simp add: addr_order ledgerABC_def ledgerBAC_def valA_def valB_def valC_def)

text \<open>
  C1. The claim is for every maximum set size, and the comparison \<^verbatim>\<open>len <= max\<close> of
  \<^verbatim>\<open>getSorted\<close> is there to return everything for a large bound. The bound reaches it
  through the unchecked conversion \<^verbatim>\<open>int(maxValidatorSetSize)\<close>: for \<open>2^63\<close> and above the
  conversion is negative, the comparison fails and \<^verbatim>\<open>activeValidators[:max]\<close> panics,
  for the three validators A, B, C at \<open>2^63\<close> and even for an empty ledger at \<open>2^64 - 1\<close>.
\<close>

theorem selection_panics_at_large_bound:
  "UpdateValidatorSet rootChainUp debugOff 3 9223372036854775808 [] (Some ledgerABC)
     = Inl PanicSliceBounds \<and>
   UpdateValidatorSet rootChainUp debugOff 3 18446744073709551615 [] (Some ledgerEmpty)
     = Inl PanicSliceBounds"
  by (simp add: UpdateValidatorSet_def getFullValidatorSet_def getSorted_eq activeSorted_def
      ledgerABC_def ledgerEmpty_def valA_def valB_def valC_def)

subsection \<open>Listing all validators\<close>

text \<open>
  C10. \<^verbatim>\<open>GetAllValidators\<close> returns, without truncation, exactly the ledger records whose
  voting power is above zero, ordered descending by voting power with ties by ascending
  address; a record whose power is zero or less stays in the ledger but is not returned,
  although the comment of the function says "all validators regardless if they are active
  or not".
\<close>

theorem GetAllValidators_active_only:
  "\<exists>zs. GetAllValidators (Some fullValidatorSet) = Inr zs \<and>
        mset zs = mset (filter (\<lambda>v. 0 < VotingPower v) (map snd (Validators fullValidatorSet))) \<and>
        sorted_wrt ranks_not_after zs \<and>
        (\<forall>v \<in> snd ` set (Validators fullValidatorSet). VotingPower v \<le> 0 \<longrightarrow> v \<notin> set zs)"
proof -
  let ?sc = "Validators fullValidatorSet"
  have "length (activeSorted ?sc) \<le> length ?sc"
    by (simp add: activeSorted_def)
  then have "GetAllValidators (Some fullValidatorSet) = Inr (activeSorted ?sc)"
    by (simp add: GetAllValidators_def getFullValidatorSet_def getSorted_eq)
  moreover have "\<forall>v \<in> snd ` set ?sc. VotingPower v \<le> 0 \<longrightarrow> v \<notin> set (activeSorted ?sc)"
    by (auto simp: activeSorted_def)
  ultimately show ?thesis
    using mset_activeSorted sorted_activeSorted by blast
qed

theorem GetAllValidators_active_only_witness:
  "GetAllValidators (Some ledgerZeroed) = Inr [valA] \<and>
   map_of (Validators ledgerZeroed) addrB
     = Some \<lparr>Address = addrB, BlsKey = None, VotingPower = 0, IsActive = False\<rparr>"
  using GetAllValidators_active_only [of ledgerZeroed]
  by (simp add: GetAllValidators_def getFullValidatorSet_def getSorted_eq activeSorted_def
      ledgerZeroed_def valA_def addr_order)

subsection \<open>Determinism of the delta\<close>

lemma ledger_wf_reordered:
  assumes "ledger_wf sc1" and "mset sc2 = mset sc1"
  shows "ledger_wf sc2"
proof -
  have "mset (map fst sc2) = mset (map fst sc1)" using assms(2) by (metis mset_map)
  then have "distinct (map fst sc2)"
    using assms(1) by (metis ledger_wf_def mset_eq_imp_distinct_iff)
  moreover have "set sc2 = set sc1" using assms(2) by (rule mset_eq_setD)
  ultimately show ?thesis using assms(1) by (simp add: ledger_wf_def list_all_iff)
qed

text \<open>
  C3 (amended). Two runs of \<^verbatim>\<open>UpdateValidatorSet\<close> on the same ledger, previous set,
  epoch and bound that get the same answers from the root-chain key lookup and from the
  debug check of the delta return the same result (the same added, updated and removed
  contents in the same order, or the same error), whatever order the map of validators
  is visited in: the second association list is any rearrangement of the first. The
  ledger is one the code builds (lemmas \<open>ledger_wf_PostEpoch\<close>, \<open>ledger_wf_PostBlock\<close>).
\<close>

theorem UpdateValidatorSet_deterministic:
  assumes "ledger_wf sc1" and "mset sc2 = mset sc1"
  shows "UpdateValidatorSet getBlsKey debugApplyDelta epoch maxValidatorSetSize oldValidatorSet
           (Some (fullValidatorSet\<lparr>Validators := sc1\<rparr>))
       = UpdateValidatorSet getBlsKey debugApplyDelta epoch maxValidatorSetSize oldValidatorSet
           (Some (fullValidatorSet\<lparr>Validators := sc2\<rparr>))"
proof -
  have "ledger_wf sc2" using assms by (rule ledger_wf_reordered)
  moreover have "set sc1 = set sc2" using assms(2) by (metis mset_eq_setD)
  ultimately have "activeSorted sc1 = activeSorted sc2"
    using assms(1) by (intro activeSorted_order_irrelevant)
  then have "getSorted (sint maxValidatorSetSize) sc1 = getSorted (sint maxValidatorSetSize) sc2"
    by (simp add: getSorted_eq)
  then show ?thesis
    by (simp add: UpdateValidatorSet_def getFullValidatorSet_def)
qed

lemma ledgerABC_wf: "ledger_wf (Validators ledgerABC)" "ledger_wf (Validators ledgerBAC)"
  by (simp_all add: ledger_wf_def ledgerABC_def ledgerBAC_def valA_def valB_def valC_def
      addrA_def addrB_def addrC_def)

lemma activeSorted_ABC:
  "activeSorted (Validators ledgerABC) = [valA, valB, valC]"
  "activeSorted (Validators ledgerBAC) = [valA, valB, valC]"
  by (simp_all add: activeSorted_def ledgerABC_def ledgerBAC_def valA_def valB_def valC_def
      validator_key_def addrA_def addrB_def addrC_def)

lemma UpdateValidatorSet_ABC:
  "UpdateValidatorSet rootChainUp debugOff 3 2 [valC, valA] (Some ledgerABC)
     = Inr \<lparr>Added = [valB\<lparr>BlsKey := Some (0xFF # addrB)\<rparr>], Updated = [],
            Removed = [True]\<rparr>"
  by (simp add: UpdateValidatorSet_def getFullValidatorSet_def getSorted_eq activeSorted_ABC
      valA_def valB_def valC_def addrA_def addrB_def addrC_def rootChainUp_def debugOff_def
      Bitmap_Set_def big_Cmp_def)

lemma UpdateValidatorSet_ABC_down:
  "UpdateValidatorSet rootChainDown debugOff 3 2 [valC, valA] (Some ledgerABC)
     = Inl (CouldNotRetrieveValidatorData addrB
             (CollaboratorError ''failed to invoke validators function''))"
  by (simp add: UpdateValidatorSet_def getFullValidatorSet_def getSorted_eq activeSorted_ABC
      valA_def valB_def valC_def addrA_def addrB_def addrC_def rootChainDown_def debugOff_def
      Bitmap_Set_def big_Cmp_def)

theorem UpdateValidatorSet_deterministic_witness:
  "ledger_wf (Validators ledgerABC) \<and>
   mset (Validators ledgerBAC) = mset (Validators ledgerABC) \<and>
   UpdateValidatorSet rootChainUp debugOff 3 2 [valC, valA] (Some ledgerABC)
     = UpdateValidatorSet rootChainUp debugOff 3 2 [valC, valA] (Some ledgerBAC) \<and>
   UpdateValidatorSet rootChainUp debugOff 3 2 [valC, valA] (Some ledgerABC)
     = Inr \<lparr>Added = [valB\<lparr>BlsKey := Some (0xFF # addrB)\<rparr>], Updated = [],
            Removed = [True]\<rparr> \<and>
   UpdateValidatorSet rootChainDown debugOff 3 2 [valC, valA] (Some ledgerABC)
     = UpdateValidatorSet rootChainDown debugOff 3 2 [valC, valA] (Some ledgerBAC)"
proof -
  have m: "mset (Validators ledgerBAC) = mset (Validators ledgerABC)"
    by (simp add: ledgerABC_def ledgerBAC_def)
  have r: "ledgerABC\<lparr>Validators := Validators ledgerBAC\<rparr> = ledgerBAC"
    by (simp add: ledgerABC_def ledgerBAC_def)
  have "UpdateValidatorSet g debugOff 3 2 [valC, valA] (Some ledgerABC)
     = UpdateValidatorSet g debugOff 3 2 [valC, valA] (Some ledgerBAC)" for g
    using UpdateValidatorSet_deterministic [OF ledgerABC_wf(1) m,
        of g debugOff 3 2 "[valC, valA]" ledgerABC] r
    by simp
  then show ?thesis
    using ledgerABC_wf(1) m UpdateValidatorSet_ABC by simp
qed

text \<open>
  C3 as stated fixes the ledger, the previous set, the epoch and the bound only. The
  function also asks the root chain for the key of a new validator: on the same ledger
  one run returns a delta and a run whose lookup fails returns an error.
\<close>

theorem UpdateValidatorSet_root_chain_counterexample:
  "UpdateValidatorSet rootChainDown debugOff 3 2 [valC, valA] (Some ledgerABC)
     \<noteq> UpdateValidatorSet rootChainUp debugOff 3 2 [valC, valA] (Some ledgerABC)"
  by (simp add: UpdateValidatorSet_ABC UpdateValidatorSet_ABC_down)

subsection \<open>The delta: removed bitmap and added keys\<close>

lemma Bitmap_IsSet_Set: "Bitmap_IsSet (Bitmap_Set b i) j \<longleftrightarrow> j = i \<or> Bitmap_IsSet b j"
  by (auto simp: Bitmap_IsSet_def Bitmap_Set_def nth_list_update nth_append)

lemma Bitmap_IsSet_Nil: "\<not> Bitmap_IsSet [] j"
  by (simp add: Bitmap_IsSet_def)

lemma scanOldValidatorSet_bitmap:
  "Bitmap_IsSet (snd (scanOldValidatorSet S vs i (om, bm))) j \<longleftrightarrow>
     Bitmap_IsSet bm j \<or> (i \<le> j \<and> j < i + length vs \<and> Address (vs ! (j - i)) \<notin> S)"
proof (induction vs arbitrary: i om bm j)
  case Nil
  then show ?case by auto
next
  case (Cons v vs)
  have nth: "i < j \<Longrightarrow> (v # vs) ! (j - i) = vs ! (j - Suc i)" for j
    by (simp add: nth_Cons')
  show ?case
  proof (cases "j = i")
    case True
    then show ?thesis by (simp add: Cons.IH Bitmap_IsSet_Set)
  next
    case False
    then show ?thesis
      using nth [of j] by (auto simp: Cons.IH Bitmap_IsSet_Set)
  qed
qed

lemma scanOldValidatorSet_map:
  "fst (scanOldValidatorSet S vs i (om, bm)) a = None \<longleftrightarrow>
     om a = None \<and> a \<notin> Address ` set vs"
  by (induction vs arbitrary: i om bm) auto

lemma diffNewValidatorSet_added_keys:
  "diffNewValidatorSet g om new (upd, add) = Inr (upd', add') \<Longrightarrow>
   \<forall>v \<in> set add. BlsKey v \<noteq> None \<Longrightarrow> \<forall>v \<in> set add'. BlsKey v \<noteq> None"
proof (induction new arbitrary: upd add)
  case Nil
  then show ?case by simp
next
  case (Cons n new)
  show ?case
  proof (cases "om (Address n)")
    case (Some ov)
    then show ?thesis using Cons.prems Cons.IH by (auto split: if_splits)
  next
    case None
    show ?thesis
    proof (cases "BlsKey n")
      case (Some k)
      then have "diffNewValidatorSet g om new (upd, add @ [n]) = Inr (upd', add')"
        using Cons.prems(1) None by simp
      moreover have "\<forall>v \<in> set (add @ [n]). BlsKey v \<noteq> None"
        using Cons.prems(2) Some by simp
      ultimately show ?thesis by (rule Cons.IH)
    next
      case nokey: None
      show ?thesis
      proof (cases "g (Address n)")
        case (Inl e)
        then show ?thesis using Cons.prems(1) None nokey by simp
      next
        case (Inr k)
        then have "diffNewValidatorSet g om new (upd, add @ [n\<lparr>BlsKey := Some k\<rparr>]) = Inr (upd', add')"
          using Cons.prems(1) None nokey by simp
        moreover have "\<forall>v \<in> set (add @ [n\<lparr>BlsKey := Some k\<rparr>]). BlsKey v \<noteq> None"
          using Cons.prems(2) by simp
        ultimately show ?thesis by (rule Cons.IH)
      qed
    qed
  qed
qed

lemma diffNewValidatorSet_fails:
  "v \<in> set new \<Longrightarrow> om (Address v) = None \<Longrightarrow> BlsKey v = None \<Longrightarrow> isl (g (Address v)) \<Longrightarrow>
   \<exists>a e. diffNewValidatorSet g om new acc = Inl (CouldNotRetrieveValidatorData a e)"
proof (induction new arbitrary: acc)
  case Nil
  then show ?case by simp
next
  case (Cons n new)
  obtain upd add where acc: "acc = (upd, add)" by (cases acc)
  show ?case
  proof (cases "n = v")
    case True
    then show ?thesis using Cons.prems acc by (cases "g (Address v)") auto
  next
    case False
    then have "v \<in> set new" using Cons.prems(1) by simp
    then have ih: "\<exists>a e. diffNewValidatorSet g om new acc' = Inl (CouldNotRetrieveValidatorData a e)" for acc'
      using Cons.IH Cons.prems by blast
    show ?thesis unfolding acc
      by (auto simp: ih split: option.splits sum.splits)
  qed
qed

lemma UpdateValidatorSet_Inr:
  "UpdateValidatorSet g dbg epoch maxSize old (Some fvs) = Inr delta \<Longrightarrow>
   \<exists>newSet upd add.
     getSorted (sint maxSize) (Validators fvs) = Inr newSet \<and>
     diffNewValidatorSet g
       (fst (scanOldValidatorSet (Address ` set newSet) old 0 (Map.empty, []))) newSet ([], [])
       = Inr (upd, add) \<and>
     delta = \<lparr>Added = add, Updated = upd,
              Removed = snd (scanOldValidatorSet (Address ` set newSet) old 0 (Map.empty, []))\<rparr>"
  by (auto simp: UpdateValidatorSet_def getFullValidatorSet_def Let_def
      split: sum.splits prod.splits option.splits)

lemma diffNewValidatorSet_succeeds:
  "\<forall>v \<in> set new. om (Address v) = None \<and> BlsKey v = None \<longrightarrow> \<not> isl (g (Address v)) \<Longrightarrow>
   \<exists>upd add. diffNewValidatorSet g om new acc = Inr (upd, add)"
proof (induction new arbitrary: acc)
  case Nil
  then show ?case by (cases acc) simp
next
  case (Cons n new)
  obtain upd add where acc: "acc = (upd, add)" by (cases acc)
  have ih: "\<exists>upd add. diffNewValidatorSet g om new acc' = Inr (upd, add)" for acc'
    using Cons.IH Cons.prems by simp
  have n: "om (Address n) = None \<and> BlsKey n = None \<longrightarrow> \<not> isl (g (Address n))"
    using Cons.prems by simp
  show ?case unfolding acc
    using n by (auto simp: ih split: option.splits sum.splits)
qed

text \<open>
  C2. Let the new active set be the result of \<^verbatim>\<open>getSorted\<close>. \<^verbatim>\<open>UpdateValidatorSet\<close>
  returns a delta whenever the key of every new validator without a stored key can be
  fetched and the debug check raises no error; and in every delta it returns, bit \<open>i\<close>
  of the removed bitmap is set exactly when \<open>i\<close> is an index of the previous active set
  and the address at that position is not among the addresses of the new active set.
\<close>

theorem removed_bitmap_correct:
  assumes "getSorted (sint maxValidatorSetSize) (Validators fullValidatorSet) = Inr newValidatorSet"
  shows "((\<forall>v \<in> set newValidatorSet.
             Address v \<notin> Address ` set oldValidatorSet \<and> BlsKey v = None \<longrightarrow>
             \<not> isl (getBlsKey (Address v))) \<and>
          (\<forall>d. debugApplyDelta oldValidatorSet d = None) \<longrightarrow>
          (\<exists>delta. UpdateValidatorSet getBlsKey debugApplyDelta epoch maxValidatorSetSize
                     oldValidatorSet (Some fullValidatorSet) = Inr delta)) \<and>
         (\<forall>delta. UpdateValidatorSet getBlsKey debugApplyDelta epoch maxValidatorSetSize
                     oldValidatorSet (Some fullValidatorSet) = Inr delta \<longrightarrow>
            (\<forall>i. Bitmap_IsSet (Removed delta) i \<longleftrightarrow>
                   i < length oldValidatorSet \<and>
                   Address (oldValidatorSet ! i) \<notin> Address ` set newValidatorSet))"
proof (intro conjI impI allI)
  assume h: "(\<forall>v \<in> set newValidatorSet.
             Address v \<notin> Address ` set oldValidatorSet \<and> BlsKey v = None \<longrightarrow>
             \<not> isl (getBlsKey (Address v))) \<and>
          (\<forall>d. debugApplyDelta oldValidatorSet d = None)"
  let ?sc = "scanOldValidatorSet (Address ` set newValidatorSet) oldValidatorSet 0 (Map.empty, [])"
  obtain om bm where sc: "?sc = (om, bm)" by (cases ?sc)
  have "om a = None \<longleftrightarrow> a \<notin> Address ` set oldValidatorSet" for a
    using scanOldValidatorSet_map [of "Address ` set newValidatorSet" oldValidatorSet 0
        Map.empty "[]" a] sc by simp
  then have "\<forall>v \<in> set newValidatorSet. om (Address v) = None \<and> BlsKey v = None \<longrightarrow>
      \<not> isl (getBlsKey (Address v))"
    using h by simp
  from diffNewValidatorSet_succeeds [OF this, of "([], [])"] obtain upd add where
    "diffNewValidatorSet getBlsKey om newValidatorSet ([], []) = Inr (upd, add)" by blast
  then show "\<exists>delta. UpdateValidatorSet getBlsKey debugApplyDelta epoch maxValidatorSetSize
                     oldValidatorSet (Some fullValidatorSet) = Inr delta"
    using assms h sc by (simp add: UpdateValidatorSet_def getFullValidatorSet_def)
next
  fix delta i
  assume u: "UpdateValidatorSet getBlsKey debugApplyDelta epoch maxValidatorSetSize
                     oldValidatorSet (Some fullValidatorSet) = Inr delta"
  from UpdateValidatorSet_Inr [OF u] assms obtain upd add where
    d: "delta = \<lparr>Added = add, Updated = upd,
              Removed = snd (scanOldValidatorSet (Address ` set newValidatorSet) oldValidatorSet 0
                               (Map.empty, []))\<rparr>"
    by auto
  show "Bitmap_IsSet (Removed delta) i \<longleftrightarrow>
          i < length oldValidatorSet \<and>
          Address (oldValidatorSet ! i) \<notin> Address ` set newValidatorSet"
    unfolding d by (simp add: scanOldValidatorSet_bitmap Bitmap_IsSet_Nil)
qed

text \<open>
  C6. If a validator of the new active set is not in the previous set, has no stored key
  and the root-chain lookup of its key fails, \<^verbatim>\<open>UpdateValidatorSet\<close> returns the error
  "could not retrieve validator data" and no delta. Hence every added entry of a returned
  delta carries a key.
\<close>

theorem UpdateValidatorSet_unresolvable_key:
  "(getSorted (sint maxValidatorSetSize) (Validators fullValidatorSet) = Inr newValidatorSet \<and>
    v \<in> set newValidatorSet \<and> Address v \<notin> Address ` set oldValidatorSet \<and>
    BlsKey v = None \<and> isl (getBlsKey (Address v)) \<longrightarrow>
      (\<exists>a e. UpdateValidatorSet getBlsKey debugApplyDelta epoch maxValidatorSetSize oldValidatorSet
               (Some fullValidatorSet) = Inl (CouldNotRetrieveValidatorData a e))) \<and>
   (UpdateValidatorSet getBlsKey debugApplyDelta epoch maxValidatorSetSize oldValidatorSet
      (Some fullValidatorSet) = Inr delta \<longrightarrow>
      (\<forall>w \<in> set (Added delta). BlsKey w \<noteq> None))"
proof (intro conjI impI)
  assume a: "getSorted (sint maxValidatorSetSize) (Validators fullValidatorSet) = Inr newValidatorSet \<and>
    v \<in> set newValidatorSet \<and> Address v \<notin> Address ` set oldValidatorSet \<and>
    BlsKey v = None \<and> isl (getBlsKey (Address v))"
  let ?sc = "scanOldValidatorSet (Address ` set newValidatorSet) oldValidatorSet 0 (Map.empty, [])"
  have "fst ?sc (Address v) = None"
    using a by (simp add: scanOldValidatorSet_map)
  then obtain b e where
    "diffNewValidatorSet getBlsKey (fst ?sc) newValidatorSet ([], [])
       = Inl (CouldNotRetrieveValidatorData b e)"
    using a diffNewValidatorSet_fails [of v newValidatorSet "fst ?sc" getBlsKey "([], [])"] by blast
  then show "\<exists>a e. UpdateValidatorSet getBlsKey debugApplyDelta epoch maxValidatorSetSize
      oldValidatorSet (Some fullValidatorSet) = Inl (CouldNotRetrieveValidatorData a e)"
    using a by (cases ?sc) (simp add: UpdateValidatorSet_def getFullValidatorSet_def)
next
  assume "UpdateValidatorSet getBlsKey debugApplyDelta epoch maxValidatorSetSize oldValidatorSet
      (Some fullValidatorSet) = Inr delta"
  from UpdateValidatorSet_Inr [OF this] obtain newSet upd add where
    "diffNewValidatorSet getBlsKey
       (fst (scanOldValidatorSet (Address ` set newSet) oldValidatorSet 0 (Map.empty, [])))
       newSet ([], []) = Inr (upd, add)" and d: "Added delta = add"
    by auto
  from diffNewValidatorSet_added_keys [OF this(1)] d
  show "\<forall>w \<in> set (Added delta). BlsKey w \<noteq> None" by simp
qed

lemma getSorted_ABC:
  "getSorted (sint (2 :: 64 word)) (Validators ledgerABC) = Inr [valA, valB]"
  by (simp add: getSorted_eq activeSorted_ABC)

theorem removed_bitmap_correct_witness:
  "getSorted (sint (2 :: 64 word)) (Validators ledgerABC) = Inr [valA, valB] \<and>
   UpdateValidatorSet rootChainUp debugOff 3 2 [valC, valA] (Some ledgerABC)
     = Inr \<lparr>Added = [valB\<lparr>BlsKey := Some (0xFF # addrB)\<rparr>], Updated = [],
            Removed = [True]\<rparr> \<and>
   (\<exists>delta. UpdateValidatorSet rootChainUp debugOff 3 2 [valC, valA] (Some ledgerABC) = Inr delta \<and>
      Bitmap_IsSet (Removed delta) 0 \<and> \<not> Bitmap_IsSet (Removed delta) 1 \<and>
      \<not> Bitmap_IsSet (Removed delta) 2) \<and>
   Address ([valC, valA] ! 0) \<notin> Address ` set [valA, valB] \<and>
   Address ([valC, valA] ! 1) \<in> Address ` set [valA, valB]"
proof -
  note t = removed_bitmap_correct [OF getSorted_ABC, where getBlsKey = rootChainUp
      and debugApplyDelta = debugOff and epoch = 3 and oldValidatorSet = "[valC, valA]"]
  have k: "(\<forall>v \<in> set [valA, valB].
             Address v \<notin> Address ` set [valC, valA] \<and> BlsKey v = None \<longrightarrow>
             \<not> isl (rootChainUp (Address v))) \<and>
          (\<forall>d. debugOff [valC, valA] d = None)"
    by (simp add: rootChainUp_def debugOff_def)
  from t k obtain delta where
    u: "UpdateValidatorSet rootChainUp debugOff 3 2 [valC, valA] (Some ledgerABC) = Inr delta"
    by blast
  from t u have b: "Bitmap_IsSet (Removed delta) i \<longleftrightarrow>
      i < length [valC, valA] \<and> Address ([valC, valA] ! i) \<notin> Address ` set [valA, valB]" for i
    by blast
  have a: "Address ([valC, valA] ! 0) \<notin> Address ` set [valA, valB]"
      "Address ([valC, valA] ! 1) \<in> Address ` set [valA, valB]"
    by (simp_all add: valA_def valB_def valC_def addrA_def addrB_def addrC_def)
  have "Bitmap_IsSet (Removed delta) 0 \<and> \<not> Bitmap_IsSet (Removed delta) 1 \<and>
      \<not> Bitmap_IsSet (Removed delta) 2"
    using b [of 0] b [of 1] b [of 2] a by simp
  with u a getSorted_ABC UpdateValidatorSet_ABC show ?thesis by blast
qed

theorem UpdateValidatorSet_unresolvable_key_witness:
  "(\<exists>a e. UpdateValidatorSet rootChainDown debugOff 3 2 [valC, valA] (Some ledgerABC)
            = Inl (CouldNotRetrieveValidatorData a e)) \<and>
   UpdateValidatorSet rootChainUp debugOff 3 2 [valC, valA] (Some ledgerABC)
     = Inr \<lparr>Added = [valB\<lparr>BlsKey := Some (0xFF # addrB)\<rparr>], Updated = [],
            Removed = [True]\<rparr> \<and>
   BlsKey (valB\<lparr>BlsKey := Some (0xFF # addrB)\<rparr>) \<noteq> None"
proof -
  have h: "valB \<in> set [valA, valB] \<and> Address valB \<notin> Address ` set [valC, valA] \<and>
        BlsKey valB = None \<and> isl (rootChainDown (Address valB))"
    by (simp add: valA_def valB_def valC_def rootChainDown_def addrA_def addrB_def addrC_def)
  have "\<exists>a e. UpdateValidatorSet rootChainDown debugOff 3 2 [valC, valA] (Some ledgerABC)
            = Inl (CouldNotRetrieveValidatorData a e)"
    using UpdateValidatorSet_unresolvable_key [where getBlsKey = rootChainDown
        and debugApplyDelta = debugOff and epoch = 3 and maxValidatorSetSize = 2
        and oldValidatorSet = "[valC, valA]" and fullValidatorSet = ledgerABC
        and newValidatorSet = "[valA, valB]" and v = valB] getSorted_ABC h
    by blast
  moreover have "\<forall>w \<in> set (Added \<lparr>Added = [valB\<lparr>BlsKey := Some (0xFF # addrB)\<rparr>], Updated = [],
            Removed = [True]\<rparr>). BlsKey w \<noteq> None"
    using UpdateValidatorSet_unresolvable_key [where getBlsKey = rootChainUp
        and debugApplyDelta = debugOff and epoch = 3 and maxValidatorSetSize = 2
        and oldValidatorSet = "[valC, valA]" and fullValidatorSet = ledgerABC] UpdateValidatorSet_ABC
    by blast
  ultimately show ?thesis using UpdateValidatorSet_ABC by simp
qed

subsection \<open>Applying the transfer events of a block\<close>

lemma resolveKeys_fst:
  "fst (resolveKeys g sc) = map (\<lambda>(addr, data). (addr, resolvedRecord g data)) sc"
  by (induction sc)
    (auto simp: resolvedRecord_def big_Cmp_pos split: option.splits sum.splits prod.splits)

lemma map_of_resolveKeys:
  "map_of (fst (resolveKeys g sc)) a = map_option (resolvedRecord g) (map_of sc a)"
  unfolding resolveKeys_fst by (induction sc) auto

lemma votingPowerOf_resolveKeys:
  "votingPowerOf (fst (resolveKeys g sc)) a = votingPowerOf sc a"
  by (simp add: votingPowerOf_def map_of_resolveKeys resolvedRecord_def split: option.splits)

lemma votingPowerOf_addStake:
  "votingPowerOf (addStake b n sc) a = votingPowerOf sc a + (if a = b then n else 0)"
  by (simp add: votingPowerOf_def map_of_addStake split: option.splits)

lemma votingPowerOf_removeStake:
  "removeStake b n sc = Inr sc' \<Longrightarrow>
   votingPowerOf sc' a = votingPowerOf sc a - (if a = b then n else 0)"
  by (drule removeStake_Inr) (auto simp: votingPowerOf_def split: option.splits)

lemma applyTransferEvents_power:
  "applyTransferEvents events sc = Inr sc' \<Longrightarrow>
   votingPowerOf sc' a = votingPowerOf sc a + minted a events - burned a events"
proof (induction events arbitrary: sc)
  case Nil
  then show ?case by (simp add: minted_def burned_def)
next
  case (Cons e events)
  show ?case
  proof (cases "IsStake e")
    case True
    then have "applyTransferEvents events (addStake (To e) (Value e) sc) = Inr sc'"
      using Cons.prems by simp
    from Cons.IH [OF this] True show ?thesis
      by (simp add: votingPowerOf_addStake minted_def burned_def)
  next
    case False
    show ?thesis
    proof (cases "IsUnstake e")
      case True
      then obtain sc1 where r: "removeStake (From e) (Value e) sc = Inr sc1"
        and rest: "applyTransferEvents events sc1 = Inr sc'"
        using Cons.prems False by (auto split: sum.splits)
      from Cons.IH [OF rest] votingPowerOf_removeStake [OF r, of a] True False show ?thesis
        by (simp add: minted_def burned_def)
    next
      case nu: False
      then have "applyTransferEvents events sc = Inr sc'"
        using Cons.prems False by simp
      from Cons.IH [OF this] False nu show ?thesis
        by (simp add: minted_def burned_def)
    qed
  qed
qed

text \<open>
  Conservation for the runs of \<^verbatim>\<open>updateWithReceipts\<close> that return: the voting power of
  every address (zero for an address without entry) is its power before, plus the amounts
  of the stake events minted to it, minus the amounts of the unstake events burned from
  it. A first stake creates the entry.
\<close>

theorem updateWithReceipts_conservation:
  assumes "getFromBlocks (BlockNumber fullValidatorSet) fullBlock = Inr events"
    and "updateWithReceipts getBlsKey getFromBlocks fullValidatorSet fullBlock
           = Inr (fullValidatorSet', fx)"
  shows "votingPowerOf (Validators fullValidatorSet') a
           = votingPowerOf (Validators fullValidatorSet) a + minted a events - burned a events"
proof (cases "events = []")
  case True
  then show ?thesis using assms
    by (simp add: updateWithReceipts_def minted_def burned_def)
next
  case False
  then obtain sc where ap: "applyTransferEvents events (Validators fullValidatorSet) = Inr sc"
    and v: "Validators fullValidatorSet' = fst (resolveKeys getBlsKey sc)"
    using assms by (auto simp: updateWithReceipts_def split: sum.splits prod.splits)
  show ?thesis
    unfolding v votingPowerOf_resolveKeys by (rule applyTransferEvents_power [OF ap])
qed

subsection \<open>The ledger stays well formed\<close>

lemma keyed_by_address_update:
  "list_all (\<lambda>(k, v). Address v = k) sc \<Longrightarrow> Address v = k \<Longrightarrow>
   list_all (\<lambda>(k, v). Address v = k) (AList.update k v sc)"
  by (induction sc) auto

lemma ledger_wf_update:
  "ledger_wf sc \<Longrightarrow> Address v = k \<Longrightarrow> ledger_wf (AList.update k v sc)"
  by (simp add: ledger_wf_def distinct_update keyed_by_address_update)

lemma ledger_wf_lookup: "ledger_wf sc \<Longrightarrow> map_of sc a = Some v \<Longrightarrow> Address v = a"
  by (auto simp: ledger_wf_def list_all_iff dest: map_of_SomeD)

lemma ledger_wf_fold:
  "ledger_wf acc \<Longrightarrow>
   ledger_wf (fold (\<lambda>v stakeMap. AList.update (Address v) v stakeMap) accs acc)"
  by (induction accs arbitrary: acc) (auto simp: ledger_wf_update)

lemma ledger_wf_newValidatorStakeMap: "ledger_wf (newValidatorStakeMap accs)"
  unfolding newValidatorStakeMap_def by (rule ledger_wf_fold) (simp add: ledger_wf_def)

lemma ledger_wf_addStake: "ledger_wf sc \<Longrightarrow> ledger_wf (addStake a n sc)"
  by (auto simp: addStake_def intro!: ledger_wf_update dest: ledger_wf_lookup
      split: option.splits)

lemma ledger_wf_removeStake:
  "ledger_wf sc \<Longrightarrow> removeStake a n sc = Inr sc' \<Longrightarrow> ledger_wf sc'"
  by (auto simp: removeStake_def intro!: ledger_wf_update dest: ledger_wf_lookup
      split: option.splits)

lemma ledger_wf_applyTransferEvents:
  "ledger_wf sc \<Longrightarrow> applyTransferEvents events sc = Inr sc' \<Longrightarrow> ledger_wf sc'"
proof (induction events arbitrary: sc)
  case Nil
  then show ?case by simp
next
  case (Cons e events)
  show ?case
  proof (cases "IsStake e")
    case True
    then show ?thesis using Cons.prems Cons.IH [OF ledger_wf_addStake] by simp
  next
    case False
    show ?thesis
    proof (cases "IsUnstake e")
      case True
      then obtain sc1 where r: "removeStake (From e) (Value e) sc = Inr sc1"
        and rest: "applyTransferEvents events sc1 = Inr sc'"
        using Cons.prems False by (auto split: sum.splits)
      from Cons.IH [OF ledger_wf_removeStake [OF Cons.prems(1) r] rest] show ?thesis .
    next
      case nu: False
      then show ?thesis using Cons.prems Cons.IH False by simp
    qed
  qed
qed

lemma ledger_wf_resolveKeys: "ledger_wf sc \<Longrightarrow> ledger_wf (fst (resolveKeys g sc))"
proof -
  assume wf: "ledger_wf sc"
  have a: "map fst (fst (resolveKeys g sc)) = map fst sc"
    unfolding resolveKeys_fst by (induction sc) auto
  have b: "list_all (\<lambda>(k, v). Address v = k) sc \<Longrightarrow>
      list_all (\<lambda>(k, v). Address v = k) (fst (resolveKeys g sc))"
    unfolding resolveKeys_fst by (induction sc) (auto simp: resolvedRecord_def)
  show ?thesis using wf a b by (simp add: ledger_wf_def)
qed

text \<open>The ledger that \<^verbatim>\<open>PostEpoch\<close> stores is well formed, and \<^verbatim>\<open>PostBlock\<close> keeps it so.\<close>

lemma ledger_wf_PostEpoch:
  "NewEpochID req = 1 \<Longrightarrow> PostEpoch req s = Inr (Some fullValidatorSet) \<Longrightarrow>
   ledger_wf (Validators fullValidatorSet)"
  by (auto simp: PostEpoch_def insertFullValidatorSet_def ledger_wf_newValidatorStakeMap)

lemma ledger_wf_PostBlock:
  assumes "ledger_wf (Validators fullValidatorSet)"
    and "PostBlock g getFromBlocks req (Some fullValidatorSet) = Inr (Some fullValidatorSet', fx)"
  shows "ledger_wf (Validators fullValidatorSet')"
proof -
  from assms(2) obtain fvs1 where
    u: "updateWithReceipts g getFromBlocks fullValidatorSet (FullBlock req) = Inr (fvs1, fx)"
    and v: "Validators fullValidatorSet' = Validators fvs1"
    by (auto simp: PostBlock_def getFullValidatorSet_def insertFullValidatorSet_def
        split: sum.splits prod.splits)
  from u have "Validators fvs1 = Validators fullValidatorSet \<or>
      (\<exists>events sc. applyTransferEvents events (Validators fullValidatorSet) = Inr sc \<and>
         Validators fvs1 = fst (resolveKeys g sc))"
    by (auto simp: updateWithReceipts_def split: sum.splits prod.splits if_splits)
      (metis fst_conv)
  then show ?thesis
    using assms(1) v
    by (metis ledger_wf_resolveKeys ledger_wf_applyTransferEvents)
qed

subsection \<open>The active flag\<close>

lemma ledger_consistent_update:
  "ledger_consistent sc \<Longrightarrow> record_consistent v \<Longrightarrow> ledger_consistent (AList.update k v sc)"
  by (induction sc) (auto simp: ledger_consistent_def)

lemma ledger_consistent_lookup:
  "ledger_consistent sc \<Longrightarrow> map_of sc a = Some v \<Longrightarrow> record_consistent v"
  by (auto simp: ledger_consistent_def list_all_iff dest: map_of_SomeD)

lemma ledger_consistent_fold:
  "ledger_consistent acc \<Longrightarrow> list_all record_consistent accs \<Longrightarrow>
   ledger_consistent (fold (\<lambda>v stakeMap. AList.update (Address v) v stakeMap) accs acc)"
  by (induction accs arbitrary: acc) (auto simp: ledger_consistent_update)

lemma ledger_consistent_newValidatorStakeMap:
  "list_all record_consistent accs \<Longrightarrow> ledger_consistent (newValidatorStakeMap accs)"
  unfolding newValidatorStakeMap_def
  by (rule ledger_consistent_fold) (simp_all add: ledger_consistent_def)

lemma ledger_consistent_addStake:
  "ledger_consistent sc \<Longrightarrow> ledger_consistent (addStake a n sc)"
  by (auto simp: addStake_def big_Cmp_pos record_consistent_def
      intro!: ledger_consistent_update split: option.splits)

lemma ledger_consistent_removeStake:
  "ledger_consistent sc \<Longrightarrow> removeStake a n sc = Inr sc' \<Longrightarrow> ledger_consistent sc'"
  by (auto simp: removeStake_def big_Cmp_pos record_consistent_def
      intro!: ledger_consistent_update split: option.splits)

text \<open>The second loop of \<^verbatim>\<open>updateWithReceipts\<close> makes every record consistent, whatever
  the ledger was before.\<close>

lemma ledger_consistent_resolveKeys: "ledger_consistent (fst (resolveKeys g sc))"
  by (auto simp: resolveKeys_fst ledger_consistent_def list_all_iff record_consistent_def
      resolvedRecord_def)

lemma ledger_consistent_applyLedgerOp:
  "ledger_consistent sc \<Longrightarrow> applyLedgerOp g op sc = Inr sc' \<Longrightarrow> ledger_consistent sc'"
  by (cases op)
    (auto simp: ledger_consistent_addStake ledger_consistent_resolveKeys
      dest: ledger_consistent_removeStake)

lemma ledger_consistent_runLedgerOps:
  "ledger_consistent sc \<Longrightarrow> runLedgerOps g ops sc = Inr sc' \<Longrightarrow> ledger_consistent sc'"
proof (induction ops arbitrary: sc)
  case Nil
  then show ?case by simp
next
  case (Cons op ops)
  then obtain sc1 where s1: "applyLedgerOp g op sc = Inr sc1"
    and rest: "runLedgerOps g ops sc1 = Inr sc'"
    by (auto split: sum.splits)
  from ledger_consistent_applyLedgerOp [OF Cons.prems(1) s1] rest show ?case
    by (rule Cons.IH)
qed

text \<open>
  C5 (amended). If every record of the validator set handed to \<^verbatim>\<open>PostEpoch\<close> has its
  active flag equal to "voting power above zero", then, starting from the ledger that
  \<^verbatim>\<open>PostEpoch\<close> stores, after every sequence of \<^verbatim>\<open>addStake\<close>, \<^verbatim>\<open>removeStake\<close> and
  recomputation steps every record of the ledger has that property.
\<close>

theorem active_flag_invariant:
  assumes "list_all record_consistent (ValidatorSet req)"
    and "NewEpochID req = 1"
    and "PostEpoch req s = Inr (Some fullValidatorSet)"
    and "runLedgerOps getBlsKey ops (Validators fullValidatorSet) = Inr sc"
  shows "ledger_consistent sc"
proof -
  have "Validators fullValidatorSet = newValidatorStakeMap (ValidatorSet req)"
    using assms(2,3) by (auto simp: PostEpoch_def insertFullValidatorSet_def)
  then have "ledger_consistent (Validators fullValidatorSet)"
    using assms(1) by (simp add: ledger_consistent_newValidatorStakeMap)
  then show ?thesis using assms(4) by (rule ledger_consistent_runLedgerOps)
qed

theorem active_flag_invariant_witness:
  "list_all record_consistent [valC, valA] \<and>
   PostEpoch \<lparr>NewEpochID = 1, ValidatorSet = [valC, valA]\<rparr> None
     = Inr (Some \<lparr>BlockNumber = 0, EpochID = 0, UpdatedAtBlockNumber = 0,
                  Validators = [(addrC, valC), (addrA, valA)]\<rparr>) \<and>
   runLedgerOps rootChainDown [OpAddStake addrB 7, OpRemoveStake addrC 5, OpRecompute]
       [(addrC, valC), (addrA, valA)]
     = Inr [(addrC, valC\<lparr>VotingPower := 0, IsActive := False\<rparr>), (addrA, valA),
            (addrB, \<lparr>Address = addrB, BlsKey = None, VotingPower = 7, IsActive = True\<rparr>)] \<and>
   ledger_consistent [(addrC, valC\<lparr>VotingPower := 0, IsActive := False\<rparr>), (addrA, valA),
            (addrB, \<lparr>Address = addrB, BlsKey = None, VotingPower = 7, IsActive = True\<rparr>)]"
proof -
  have a: "list_all record_consistent (ValidatorSet \<lparr>NewEpochID = 1, ValidatorSet = [valC, valA]\<rparr>)"
    by (simp add: record_consistent_def valA_def valC_def)
  have b: "PostEpoch \<lparr>NewEpochID = 1, ValidatorSet = [valC, valA]\<rparr> None
     = Inr (Some \<lparr>BlockNumber = 0, EpochID = 0, UpdatedAtBlockNumber = 0,
                  Validators = [(addrC, valC), (addrA, valA)]\<rparr>)"
    by (simp add: PostEpoch_def insertFullValidatorSet_def newValidatorStakeMap_def
        valA_def valC_def addrA_def addrC_def)
  have c: "runLedgerOps rootChainDown [OpAddStake addrB 7, OpRemoveStake addrC 5, OpRecompute]
       (Validators \<lparr>BlockNumber = 0, EpochID = 0, UpdatedAtBlockNumber = 0,
                  Validators = [(addrC, valC), (addrA, valA)]\<rparr>)
     = Inr [(addrC, valC\<lparr>VotingPower := 0, IsActive := False\<rparr>), (addrA, valA),
            (addrB, \<lparr>Address = addrB, BlsKey = None, VotingPower = 7, IsActive = True\<rparr>)]"
    by (simp add: addStake_def removeStake_def big_Cmp_pos rootChainDown_def
        valA_def valC_def addrA_def addrB_def addrC_def)
  from active_flag_invariant [OF a _ b c] a b c show ?thesis by simp
qed

text \<open>
  C5 as stated fails: \<^verbatim>\<open>PostEpoch\<close> copies the records as they come, and \<^verbatim>\<open>addStake\<close>
  recomputes the flag of the entry it touches only. A genesis validator without stake
  that is flagged active stays so after a stake to another address.
\<close>

theorem active_flag_counterexample:
  "PostEpoch \<lparr>NewEpochID = 1, ValidatorSet = [genesisZero]\<rparr> None = Inr (Some ledgerGenesisZero) \<and>
   runLedgerOps rootChainUp [OpAddStake addrB 5] (Validators ledgerGenesisZero)
     = Inr [(addrA, genesisZero),
            (addrB, \<lparr>Address = addrB, BlsKey = None, VotingPower = 5, IsActive = True\<rparr>)] \<and>
   \<not> ledger_consistent
        [(addrA, genesisZero),
         (addrB, \<lparr>Address = addrB, BlsKey = None, VotingPower = 5, IsActive = True\<rparr>)]"
  by (simp add: PostEpoch_def insertFullValidatorSet_def newValidatorStakeMap_def
      ledgerGenesisZero_def genesisZero_def addStake_def big_Cmp_pos ledger_consistent_def
      record_consistent_def addrA_def addrB_def)

subsection \<open>Block 5: conservation and key resolution\<close>

lemma applyTransferEvents_block5:
  "applyTransferEvents eventsBlock5 (Validators ledgerAC) = Inr (Validators (ledgerAfterBlock5 None))"
  by (simp add: eventsBlock5_def ledgerAC_def ledgerAfterBlock5_def addStake_def removeStake_def
      big_Cmp_pos valA_def valC_def addrA_def addrB_def addrC_def)

lemma resolveKeys_block5:
  "resolveKeys rootChainUp (Validators (ledgerAfterBlock5 None))
     = (Validators (ledgerAfterBlock5 (Some (0xFF # addrB))), [GetBlsKeyCall addrB])"
  "resolveKeys rootChainDown (Validators (ledgerAfterBlock5 None))
     = (Validators (ledgerAfterBlock5 None), [GetBlsKeyCall addrB, WarnCouldNotGetInfo addrB])"
  by (simp_all add: ledgerAfterBlock5_def rootChainUp_def rootChainDown_def big_Cmp_pos)

lemma updateWithReceipts_block5:
  "updateWithReceipts rootChainUp getFromBlock5 ledgerAC \<lparr>Number = 5, Receipts = []\<rparr>
     = Inr (ledgerAfterBlock5 (Some (0xFF # addrB)), [GetBlsKeyCall addrB])"
  "updateWithReceipts rootChainDown getFromBlock5 ledgerAC \<lparr>Number = 5, Receipts = []\<rparr>
     = Inr (ledgerAfterBlock5 None, [GetBlsKeyCall addrB, WarnCouldNotGetInfo addrB])"
  by (simp_all add: updateWithReceipts_def getFromBlock5_def applyTransferEvents_block5
      resolveKeys_block5)
    (simp_all add: eventsBlock5_def ledgerAC_def ledgerAfterBlock5_def)

theorem updateWithReceipts_conservation_witness:
  "getFromBlock5 (BlockNumber ledgerAC) \<lparr>Number = 5, Receipts = []\<rparr> = Inr eventsBlock5 \<and>
   updateWithReceipts rootChainUp getFromBlock5 ledgerAC \<lparr>Number = 5, Receipts = []\<rparr>
     = Inr (ledgerAfterBlock5 (Some (0xFF # addrB)), [GetBlsKeyCall addrB]) \<and>
   votingPowerOf (Validators (ledgerAfterBlock5 (Some (0xFF # addrB)))) addrA = 10 + 2 - 0 \<and>
   votingPowerOf (Validators (ledgerAfterBlock5 (Some (0xFF # addrB)))) addrB = 0 + 7 - 0 \<and>
   votingPowerOf (Validators (ledgerAfterBlock5 (Some (0xFF # addrB)))) addrC = 5 + 0 - 5"
proof -
  have g: "getFromBlock5 (BlockNumber ledgerAC) \<lparr>Number = 5, Receipts = []\<rparr> = Inr eventsBlock5"
    by (simp add: getFromBlock5_def)
  note c = updateWithReceipts_conservation [OF g updateWithReceipts_block5(1)]
  have p: "votingPowerOf (Validators ledgerAC) addrA = 10"
      "votingPowerOf (Validators ledgerAC) addrB = 0"
      "votingPowerOf (Validators ledgerAC) addrC = 5"
    by (simp_all add: votingPowerOf_def ledgerAC_def valA_def valC_def addrA_def addrB_def addrC_def)
  have m: "minted addrA eventsBlock5 = 2" "minted addrB eventsBlock5 = 7"
      "minted addrC eventsBlock5 = 0" "burned addrA eventsBlock5 = 0"
      "burned addrB eventsBlock5 = 0" "burned addrC eventsBlock5 = 5"
    by (simp_all add: minted_def burned_def eventsBlock5_def addrA_def addrB_def addrC_def)
  show ?thesis
    using g updateWithReceipts_block5(1) c [of addrA] c [of addrB] c [of addrC] p m by simp
qed

text \<open>
  C4. The claim is for every ledger and every sequence of transfer events.
  \<^verbatim>\<open>addStake\<close> looks whether the address has an entry and creates one; \<^verbatim>\<open>removeStake\<close>
  reads the map without that check. An unstake from an address without entry, even of
  amount zero, dereferences a nil pointer: \<^verbatim>\<open>updateWithReceipts\<close> and \<^verbatim>\<open>PostBlock\<close> panic
  and there is no final ledger, where the claim gives the address the power
  \<open>0 + 0 - 0\<close>.
\<close>

theorem unstake_unknown_address_panics:
  "updateWithReceipts rootChainUp getFromUnstakeUnknown ledgerAC \<lparr>Number = 5, Receipts = []\<rparr>
     = Inl PanicNilDereference \<and>
   PostBlock rootChainUp getFromUnstakeUnknown requestBlock5 (Some ledgerAC)
     = Inl PanicNilDereference \<and>
   votingPowerOf (Validators ledgerAC) addrB + minted addrB eventsUnstakeUnknown
     - burned addrB eventsUnstakeUnknown = 0"
  by (simp add: updateWithReceipts_def PostBlock_def getFullValidatorSet_def requestBlock5_def
      getFromUnstakeUnknown_def eventsUnstakeUnknown_def removeStake_def ledgerAC_def
      votingPowerOf_def minted_def burned_def valA_def valC_def addrA_def addrB_def addrC_def)

lemma resolveKeys_effects:
  "(a, d) \<in> set sc \<Longrightarrow> BlsKey d = None \<Longrightarrow>
   GetBlsKeyCall (Address d) \<in> set (snd (resolveKeys g sc)) \<and>
   (isl (g (Address d)) \<longrightarrow> WarnCouldNotGetInfo a \<in> set (snd (resolveKeys g sc)))"
  by (induction sc) (auto split: prod.splits sum.splits option.splits)

lemma touched_nonempty: "touched events a \<Longrightarrow> events \<noteq> []"
  by (auto simp: touched_def)

text \<open>
  C7. When the ledger is in the store, the events of the block are read and applied,
  \<^verbatim>\<open>PostBlock\<close> succeeds whatever the root chain answers. For every entry touched by
  an event whose key is missing after the events are applied, \<^verbatim>\<open>getBlsKey\<close> is called;
  if the call fails, a warning is logged and the stored entry keeps no key; if it
  succeeds, the entry holds the returned key.
\<close>

theorem PostBlock_key_resolution_soft:
  assumes "getFromBlocks (BlockNumber fullValidatorSet) (FullBlock req) = Inr events"
    and "applyTransferEvents events (Validators fullValidatorSet) = Inr sc"
  shows "\<exists>fullValidatorSet' fx.
           PostBlock getBlsKey getFromBlocks req (Some fullValidatorSet)
             = Inr (Some fullValidatorSet', fx) \<and>
           (\<forall>a d. touched events a \<and> map_of sc a = Some d \<and> BlsKey d = None \<longrightarrow>
              GetBlsKeyCall (Address d) \<in> set fx \<and>
              (\<forall>err. getBlsKey (Address d) = Inl err \<longrightarrow>
                 WarnCouldNotGetInfo a \<in> set fx \<and>
                 (\<exists>d'. map_of (Validators fullValidatorSet') a = Some d' \<and> BlsKey d' = None)) \<and>
              (\<forall>k. getBlsKey (Address d) = Inr k \<longrightarrow>
                 (\<exists>d'. map_of (Validators fullValidatorSet') a = Some d' \<and> BlsKey d' = Some k)))"
proof (cases "events = []")
  case True
  then have "PostBlock getBlsKey getFromBlocks req (Some fullValidatorSet)
      = Inr (Some (fullValidatorSet\<lparr>EpochID := Epoch req, BlockNumber := Number (FullBlock req)\<rparr>), [])"
    using assms(1)
    by (simp add: PostBlock_def getFullValidatorSet_def updateWithReceipts_def
        insertFullValidatorSet_def)
  moreover have "\<not> touched events a" for a using True by (simp add: touched_def)
  ultimately show ?thesis by simp
next
  case False
  let ?sc' = "fst (resolveKeys getBlsKey sc)"
  let ?fx = "snd (resolveKeys getBlsKey sc)"
  let ?fvs' = "fullValidatorSet\<lparr>Validators := ?sc',
                 UpdatedAtBlockNumber := BlockNumber fullValidatorSet,
                 EpochID := Epoch req, BlockNumber := Number (FullBlock req)\<rparr>"
  have pb: "PostBlock getBlsKey getFromBlocks req (Some fullValidatorSet) = Inr (Some ?fvs', ?fx)"
    using assms False
    by (simp add: PostBlock_def getFullValidatorSet_def updateWithReceipts_def
        insertFullValidatorSet_def split: prod.splits)
  have "GetBlsKeyCall (Address d) \<in> set ?fx \<and>
        (\<forall>err. getBlsKey (Address d) = Inl err \<longrightarrow>
           WarnCouldNotGetInfo a \<in> set ?fx \<and>
           (\<exists>d'. map_of (Validators ?fvs') a = Some d' \<and> BlsKey d' = None)) \<and>
        (\<forall>k. getBlsKey (Address d) = Inr k \<longrightarrow>
           (\<exists>d'. map_of (Validators ?fvs') a = Some d' \<and> BlsKey d' = Some k))"
    if h: "map_of sc a = Some d" "BlsKey d = None" for a d
  proof -
    have mem: "(a, d) \<in> set sc" using h(1) by (rule map_of_SomeD)
    have m: "map_of ?sc' a = Some (resolvedRecord getBlsKey d)"
      using h(1) by (simp add: map_of_resolveKeys)
    show ?thesis
      using resolveKeys_effects [OF mem h(2), of getBlsKey] m h(2)
      by (auto simp: resolvedRecord_def)
  qed
  then show ?thesis using pb by blast
qed

lemma PostBlock_block5:
  "PostBlock rootChainDown getFromBlock5 requestBlock5 (Some ledgerAC)
     = Inr (Some ((ledgerAfterBlock5 None)\<lparr>EpochID := 3, BlockNumber := 5\<rparr>),
            [GetBlsKeyCall addrB, WarnCouldNotGetInfo addrB])"
  by (simp add: PostBlock_def getFullValidatorSet_def insertFullValidatorSet_def
      requestBlock5_def updateWithReceipts_block5)

theorem PostBlock_key_resolution_soft_witness:
  "PostBlock rootChainDown getFromBlock5 requestBlock5 (Some ledgerAC)
     = Inr (Some ((ledgerAfterBlock5 None)\<lparr>EpochID := 3, BlockNumber := 5\<rparr>),
            [GetBlsKeyCall addrB, WarnCouldNotGetInfo addrB]) \<and>
   touched eventsBlock5 addrB \<and>
   map_of (Validators (ledgerAfterBlock5 None)) addrB
     = Some \<lparr>Address = addrB, BlsKey = None, VotingPower = 7, IsActive = True\<rparr> \<and>
   (\<exists>fullValidatorSet' fx.
      PostBlock rootChainDown getFromBlock5 requestBlock5 (Some ledgerAC)
        = Inr (Some fullValidatorSet', fx) \<and>
      GetBlsKeyCall addrB \<in> set fx \<and> WarnCouldNotGetInfo addrB \<in> set fx \<and>
      (\<exists>d'. map_of (Validators fullValidatorSet') addrB = Some d' \<and> BlsKey d' = None))"
proof -
  have g: "getFromBlock5 (BlockNumber ledgerAC) (FullBlock requestBlock5) = Inr eventsBlock5"
    by (simp add: getFromBlock5_def)
  have t: "touched eventsBlock5 addrB"
    by (simp add: touched_def eventsBlock5_def)
  have m: "map_of (Validators (ledgerAfterBlock5 None)) addrB
     = Some \<lparr>Address = addrB, BlsKey = None, VotingPower = 7, IsActive = True\<rparr>"
    by (simp add: ledgerAfterBlock5_def addrA_def addrB_def addrC_def)
  have e: "rootChainDown addrB = Inl (CollaboratorError ''failed to invoke validators function'')"
    by (simp add: rootChainDown_def)
  from PostBlock_key_resolution_soft [where getFromBlocks = getFromBlock5
      and fullValidatorSet = ledgerAC and req = requestBlock5 and events = eventsBlock5
      and sc = "Validators (ledgerAfterBlock5 None)" and getBlsKey = rootChainDown,
      OF g applyTransferEvents_block5]
  obtain fvs' fx where
    pb: "PostBlock rootChainDown getFromBlock5 requestBlock5 (Some ledgerAC) = Inr (Some fvs', fx)"
    and all: "\<forall>a d. touched eventsBlock5 a \<and>
        map_of (Validators (ledgerAfterBlock5 None)) a = Some d \<and> BlsKey d = None \<longrightarrow>
        GetBlsKeyCall (Address d) \<in> set fx \<and>
        (\<forall>err. rootChainDown (Address d) = Inl err \<longrightarrow>
           WarnCouldNotGetInfo a \<in> set fx \<and>
           (\<exists>d'. map_of (Validators fvs') a = Some d' \<and> BlsKey d' = None)) \<and>
        (\<forall>k. rootChainDown (Address d) = Inr k \<longrightarrow>
           (\<exists>d'. map_of (Validators fvs') a = Some d' \<and> BlsKey d' = Some k))"
    by blast
  from all [rule_format, of addrB
      "\<lparr>Address = addrB, BlsKey = None, VotingPower = 7, IsActive = True\<rparr>"] t m e
  have "GetBlsKeyCall addrB \<in> set fx \<and> WarnCouldNotGetInfo addrB \<in> set fx \<and>
      (\<exists>d'. map_of (Validators fvs') addrB = Some d' \<and> BlsKey d' = None)"
    by simp
  with pb PostBlock_block5 t m show ?thesis by blast
qed

subsection \<open>Exit events of an epoch-ending block\<close>

lemma upt_5_5: "[Suc (unat (5 :: 64 word)) ..< unat (5 :: 64 word)] = []"
  "[Suc (unat (4 :: 64 word)) ..< unat (5 :: 64 word)] = []"
  "[Suc (unat (5 :: 64 word)) ..< unat (6 :: 64 word)] = []"
  "[Suc (unat (5 :: 64 word)) ..< unat (8 :: 64 word)] = [6, 7]"
  "[Suc (unat (8 :: 64 word)) ..< unat (9 :: 64 word)] = []"
  "[Suc (unat (9 :: 64 word)) ..< unat (10 :: 64 word)] = []"
  by (simp_all add: upt_rec)

text \<open>The model gives what the three runs of \<^verbatim>\<open>TestCheckpointManager_PostBlock\<close>
  require.\<close>

lemma test_PostBlock_not_epoch_ending:
  "checkpointPostBlock noBlockchain
      \<lparr>BlockNo = 5, CheckpointEpoch = 1, EndsEpoch = False, ExitIds = [0, 1, 2, 3, 4]\<rparr>
      \<lparr>lastSaved = 4, exitEvents = []\<rparr> = Inr testStore1"
  "length (getExitEvents 1 (onBlock 5) testStore1) = 5"
  "EpochNumber (getExitEvents 1 (onBlock 5) testStore1 ! 0) = 1"
  by (simp_all add: checkpointPostBlock_def upt_5_5 exitEventsOfBlock_def testStore1_def
      getExitEvents_def onBlock_def)

lemma test_PostBlock_epoch_ending:
  "checkpointPostBlock noBlockchain
      \<lparr>BlockNo = 6, CheckpointEpoch = 1, EndsEpoch = True, ExitIds = [5, 6, 7, 8, 9]\<rparr>
      testStore1 = Inr testStore2"
  "length (getExitEvents 2 (onBlock 7) testStore2) = 5"
  "ExitBlockNumber (getExitEvents 2 (onBlock 7) testStore2 ! 0) = 7"
  "EpochNumber (getExitEvents 2 (onBlock 7) testStore2 ! 0) = 2"
  by (simp_all add: checkpointPostBlock_def upt_5_5 exitEventsOfBlock_def testStore1_def
      testStore2_def getExitEvents_def onBlock_def)

lemma test_PostBlock_missing_events:
  "checkpointPostBlock testBlockchain
      \<lparr>BlockNo = 8, CheckpointEpoch = 2, EndsEpoch = False, ExitIds = [13, 14]\<rparr>
      (testStore2\<lparr>lastSaved := 5\<rparr>) = Inr testStore3"
  "length (getExitEvents 2 (onBlock 7) testStore3) = 3 + 5"
  "EpochNumber (getExitEvents 2 (onBlock 7) testStore3 ! 0) = 2"
  "length (getExitEvents 2 (onBlock 8) testStore3) = 2"
  "EpochNumber (getExitEvents 2 (onBlock 8) testStore3 ! 0) = 2"
  by (simp_all add: checkpointPostBlock_def upt_5_5 exitEventsOfBlock_def testStore1_def
      testStore2_def testStore3_def getExitEvents_def onBlock_def testBlockchain_def)






end
